theory Spec2Isabelle
  imports Complex_Main
begin

section \<open>Cell values of the tabular dataset\<close>

text \<open>
  The validator and the quality profiler read a pandas DataFrame. A cell is the missing
  marker (NaN), an integer (an int64 column), a float (a float64 column) or a string
  (an object column). A float cell carries, beside its value, the text that Python's
  \<^verbatim>\<open>str()\<close> gives for it (the shortest round-trip rendering, which is not recomputed
  here). Characters are code points below 256.
\<close>

datatype pyfloat = Fin rat | PosInf | NegInf | FNaN

datatype pyval = NaN | PInt int | PFloat pyfloat string | PStr string

datatype error = KeyError string | ValueError | TypeError | OverflowError

text \<open>\<^verbatim>\<open>pd.isna(value)\<close> and \<^verbatim>\<open>pd.notna(value)\<close>.\<close>

fun isna :: "pyval \<Rightarrow> bool" where
  "isna NaN = True"
| "isna (PFloat FNaN t) = True"
| "isna (PInt i) = False"
| "isna (PFloat (Fin r) t) = False"
| "isna (PFloat PosInf t) = False"
| "isna (PFloat NegInf t) = False"
| "isna (PStr s) = False"

definition notna :: "pyval \<Rightarrow> bool" where
  "notna v = (\<not> isna v)"

subsection \<open>Characters and strings\<close>

definition code :: "char \<Rightarrow> nat" where
  "code c = of_char c"

text \<open>\<^verbatim>\<open>str.isspace\<close> on one character (also what \<^verbatim>\<open>\s\<close> matches in a str pattern).\<close>

definition py_isspace :: "char \<Rightarrow> bool" where
  "py_isspace c =
     ((9 \<le> code c \<and> code c \<le> 13) \<or> (28 \<le> code c \<and> code c \<le> 32)
      \<or> code c = 133 \<or> code c = 160)"

definition is_digit :: "char \<Rightarrow> bool" where
  "is_digit c = (48 \<le> code c \<and> code c \<le> 57)"

definition is_alpha :: "char \<Rightarrow> bool" where
  "is_alpha c = ((65 \<le> code c \<and> code c \<le> 90) \<or> (97 \<le> code c \<and> code c \<le> 122))"

definition digit_val :: "char \<Rightarrow> nat" where
  "digit_val c = code c - 48"

text \<open>\<^verbatim>\<open>str.strip()\<close> and \<^verbatim>\<open>str.lower()\<close>.\<close>

definition strip :: "string \<Rightarrow> string" where
  "strip s = rev (dropWhile py_isspace (rev (dropWhile py_isspace s)))"

definition lower_char :: "char \<Rightarrow> char" where
  "lower_char c =
     (if (65 \<le> code c \<and> code c \<le> 90) \<or> (192 \<le> code c \<and> code c \<le> 222 \<and> code c \<noteq> 215)
      then char_of (code c + 32) else c)"

definition lower :: "string \<Rightarrow> string" where
  "lower s = map lower_char s"

text \<open>Decimal rendering of an integer, \<^verbatim>\<open>str(n)\<close>.\<close>

fun str_of_nat :: "nat \<Rightarrow> string" where
  "str_of_nat n =
     (if n < 10 then [char_of (48 + n)]
      else str_of_nat (n div 10) @ [char_of (48 + n mod 10)])"

definition str_of_int :: "int \<Rightarrow> string" where
  "str_of_int i = (if i < 0 then CHR ''-'' # str_of_nat (nat (- i)) else str_of_nat (nat i))"

text \<open>\<^verbatim>\<open>str(value)\<close> of a cell.\<close>

fun py_str :: "pyval \<Rightarrow> string" where
  "py_str NaN = ''nan''"
| "py_str (PInt i) = str_of_int i"
| "py_str (PFloat f t) = t"
| "py_str (PStr s) = s"

subsection \<open>Numeric literals: \<^verbatim>\<open>int(s)\<close> and \<^verbatim>\<open>float(s)\<close> on strings\<close>

text \<open>
  A digit part is a non-empty run of decimal digits in which single underscores may
  stand between two digits. \<open>digitpart\<close> gives its digits, or \<open>None\<close> when the
  text is not a digit part.
\<close>

fun digitpart_from :: "bool \<Rightarrow> string \<Rightarrow> string option" where
  "digitpart_from after_digit [] = (if after_digit then Some [] else None)"
| "digitpart_from after_digit (c # cs) =
     (if is_digit c then map_option ((#) c) (digitpart_from True cs)
      else if c = CHR ''_'' \<and> after_digit then digitpart_from False cs
      else None)"

definition digitpart :: "string \<Rightarrow> string option" where
  "digitpart s = (if s = [] then None else digitpart_from False s)"

definition nat_of_digits :: "string \<Rightarrow> nat" where
  "nat_of_digits ds = foldl (\<lambda>a c. 10 * a + digit_val c) 0 ds"

text \<open>An optional sign in front of a text: the sign (\<open>True\<close> for minus) and the rest.\<close>

fun split_sign :: "string \<Rightarrow> bool \<times> string" where
  "split_sign [] = (False, [])"
| "split_sign (c # cs) =
     (if c = CHR ''-'' then (True, cs) else if c = CHR ''+'' then (False, cs) else (False, c # cs))"

text \<open>\<^verbatim>\<open>int(s)\<close> for a string, base 10: surrounding whitespace, a sign, a digit part.\<close>

definition int_of_str :: "string \<Rightarrow> error + int" where
  "int_of_str s =
     (case split_sign (strip s) of (neg, body) \<Rightarrow>
        (case digitpart body of
           None \<Rightarrow> Inl ValueError
         | Some ds \<Rightarrow> Inr (if neg then - int (nat_of_digits ds) else int (nat_of_digits ds))))"

text \<open>
  \<^verbatim>\<open>float(s)\<close> for a string: surrounding whitespace, a sign, then \<^verbatim>\<open>inf\<close>,
  \<^verbatim>\<open>infinity\<close> or \<^verbatim>\<open>nan\<close> in any case, or a decimal literal with an optional
  fraction and exponent. The result is the exact value of the literal: rounding to
  binary64 is not modelled.
\<close>

definition split_at :: "(char \<Rightarrow> bool) \<Rightarrow> string \<Rightarrow> string \<times> string option" where
  "split_at p s =
     (case dropWhile (\<lambda>c. \<not> p c) s of
        [] \<Rightarrow> (s, None)
      | c # rest \<Rightarrow> (takeWhile (\<lambda>c. \<not> p c) s, Some rest))"

definition mantissa_of_str :: "string \<Rightarrow> (nat \<times> nat) option" where
  "mantissa_of_str m =
     (case split_at (\<lambda>c. c = CHR ''.'') m of
        (ip, None) \<Rightarrow> map_option (\<lambda>ds. (nat_of_digits ds, 0)) (digitpart ip)
      | (ip, Some fp) \<Rightarrow>
          (if ip = [] \<and> fp = [] then None
           else (case (if ip = [] then Some [] else digitpart ip,
                       if fp = [] then Some [] else digitpart fp) of
                   (Some ids, Some fds) \<Rightarrow> Some (nat_of_digits (ids @ fds), length fds)
                 | _ \<Rightarrow> None)))"

definition exponent_of_str :: "string option \<Rightarrow> int option" where
  "exponent_of_str e =
     (case e of
        None \<Rightarrow> Some 0
      | Some es \<Rightarrow>
          (case split_sign es of (neg, body) \<Rightarrow>
             map_option (\<lambda>ds. if neg then - int (nat_of_digits ds) else int (nat_of_digits ds))
               (digitpart body)))"

definition pow10 :: "int \<Rightarrow> rat" where
  "pow10 e = (if 0 \<le> e then 10 ^ nat e else 1 / 10 ^ nat (- e))"

definition float_of_str :: "string \<Rightarrow> error + pyfloat" where
  "float_of_str s =
     (case split_sign (strip s) of (neg, body) \<Rightarrow>
        if lower body = ''inf'' \<or> lower body = ''infinity'' then Inr (if neg then NegInf else PosInf)
        else if lower body = ''nan'' then Inr FNaN
        else (case split_at (\<lambda>c. c = CHR ''e'' \<or> c = CHR ''E'') body of (m, e) \<Rightarrow>
                (case (mantissa_of_str m, exponent_of_str e) of
                   (Some (digits, scale), Some ex) \<Rightarrow>
                     Inr (Fin ((if neg then - 1 else 1) * of_nat digits * pow10 (ex - int scale)))
                 | _ \<Rightarrow> Inl ValueError)))"

text \<open>\<^verbatim>\<open>int(value)\<close> of a cell: a float is truncated towards zero, an infinite one overflows.\<close>

definition truncate :: "rat \<Rightarrow> int" where
  "truncate r = (if 0 \<le> r then \<lfloor>r\<rfloor> else \<lceil>r\<rceil>)"

fun py_int :: "pyval \<Rightarrow> error + int" where
  "py_int NaN = Inl ValueError"
| "py_int (PInt i) = Inr i"
| "py_int (PFloat (Fin r) t) = Inr (truncate r)"
| "py_int (PFloat PosInf t) = Inl OverflowError"
| "py_int (PFloat NegInf t) = Inl OverflowError"
| "py_int (PFloat FNaN t) = Inl ValueError"
| "py_int (PStr s) = int_of_str s"

text \<open>\<^verbatim>\<open>float(value)\<close> of a cell (an integer cell is 64 bits wide and converts exactly
  enough for the comparisons made on the result).\<close>

fun py_float :: "pyval \<Rightarrow> error + pyfloat" where
  "py_float NaN = Inr FNaN"
| "py_float (PInt i) = Inr (Fin (of_int i))"
| "py_float (PFloat f t) = Inr f"
| "py_float (PStr s) = float_of_str s"

text \<open>Comparison of a float with a finite bound; every comparison with NaN is false.\<close>

fun float_less :: "pyfloat \<Rightarrow> rat \<Rightarrow> bool" where
  "float_less (Fin r) b = (r < b)"
| "float_less NegInf b = True"
| "float_less PosInf b = False"
| "float_less FNaN b = False"

fun float_greater :: "pyfloat \<Rightarrow> rat \<Rightarrow> bool" where
  "float_greater (Fin r) b = (r > b)"
| "float_greater PosInf b = True"
| "float_greater NegInf b = False"
| "float_greater FNaN b = False"

text \<open>Python's \<^verbatim>\<open>==\<close> on two cells: numbers compare by value, a string only equals
  a string, NaN equals nothing.\<close>

fun py_eq :: "pyval \<Rightarrow> pyval \<Rightarrow> bool" where
  "py_eq (PInt i) (PInt j) = (i = j)"
| "py_eq (PInt i) (PFloat (Fin r) t) = (of_int i = r)"
| "py_eq (PFloat (Fin r) t) (PInt i) = (r = of_int i)"
| "py_eq (PFloat f t) (PFloat g u) = (f = g \<and> f \<noteq> FNaN)"
| "py_eq (PStr s) (PStr t) = (s = t)"
| "py_eq v w = False"

text \<open>\<^verbatim>\<open>value in ids_seen\<close>, the set kept as the list of its members.\<close>

definition py_in :: "pyval \<Rightarrow> pyval list \<Rightarrow> bool" where
  "py_in v seen = list_ex (py_eq v) seen"

subsection \<open>\<^verbatim>\<open>datetime.strptime\<close> for the formats of the date rule\<close>

text \<open>
  \<^verbatim>\<open>strptime\<close> turns the format into a regular expression, matches it at the start of
  the text (alternatives in their written order, with backtracking), refuses a match
  that does not reach the end of the text, and then builds the date, which refuses a
  year 0 and a day the month does not have. The directives are
  \<^verbatim>\<open>%Y = \d\d\d\d\<close>, \<^verbatim>\<open>%m = 1[0-2]|0[1-9]|[1-9]\<close> and
  \<^verbatim>\<open>%d = 3[0-1]|[1-2]\d|0[1-9]|[1-9]| [1-9]\<close>; any other format character
  stands for itself. A match is the value read and the text left.
\<close>

definition between :: "char \<Rightarrow> char \<Rightarrow> char \<Rightarrow> bool" where
  "between lo hi c = (code lo \<le> code c \<and> code c \<le> code hi)"

fun one_char :: "(char \<Rightarrow> bool) \<Rightarrow> string \<Rightarrow> (nat \<times> string) list" where
  "one_char p (c # rest) = (if p c then [(digit_val c, rest)] else [])"
| "one_char p [] = []"

fun two_chars :: "(char \<Rightarrow> bool) \<Rightarrow> (char \<Rightarrow> bool) \<Rightarrow> string \<Rightarrow> (nat \<times> string) list" where
  "two_chars p q (c # d # rest) =
     (if p c \<and> q d then [((if is_digit c then 10 * digit_val c else 0) + digit_val d, rest)] else [])"
| "two_chars p q s = []"

fun four_digits :: "string \<Rightarrow> (nat \<times> string) list" where
  "four_digits (a # b # c # d # rest) =
     (if is_digit a \<and> is_digit b \<and> is_digit c \<and> is_digit d
      then [(nat_of_digits [a, b, c, d], rest)] else [])"
| "four_digits s = []"

definition directive :: "char \<Rightarrow> string \<Rightarrow> (nat \<times> string) list" where
  "directive k s =
     (if k = CHR ''Y'' then four_digits s
      else if k = CHR ''m'' then
        two_chars (\<lambda>c. c = CHR ''1'') (between CHR ''0'' CHR ''2'') s
        @ two_chars (\<lambda>c. c = CHR ''0'') (between CHR ''1'' CHR ''9'') s
        @ one_char (between CHR ''1'' CHR ''9'') s
      else if k = CHR ''d'' then
        two_chars (\<lambda>c. c = CHR ''3'') (between CHR ''0'' CHR ''1'') s
        @ two_chars (between CHR ''1'' CHR ''2'') is_digit s
        @ two_chars (\<lambda>c. c = CHR ''0'') (between CHR ''1'' CHR ''9'') s
        @ one_char (between CHR ''1'' CHR ''9'') s
        @ two_chars (\<lambda>c. c = CHR '' '') (between CHR ''1'' CHR ''9'') s
      else [])"

text \<open>All matches of a format against a text, in the order the regular expression
  engine finds them: the fields read so far, and the text left.\<close>

fun format_matches :: "string \<Rightarrow> string \<Rightarrow> (char \<times> nat) list \<Rightarrow> ((char \<times> nat) list \<times> string) list" where
  "format_matches [] s fields = [(fields, s)]"
| "format_matches (f # fmt) s fields =
     (if f = CHR ''%'' then
        (case fmt of
           [] \<Rightarrow> []
         | k # fmt' \<Rightarrow>
             concat (map (\<lambda>(v, rest). format_matches fmt' rest (fields @ [(k, v)])) (directive k s)))
      else
        (case s of
           [] \<Rightarrow> []
         | c # rest \<Rightarrow> if c = f then format_matches fmt rest fields else []))"

definition is_leap :: "nat \<Rightarrow> bool" where
  "is_leap y = (y mod 4 = 0 \<and> (y mod 100 \<noteq> 0 \<or> y mod 400 = 0))"

definition days_in_month :: "nat \<Rightarrow> nat \<Rightarrow> nat" where
  "days_in_month y m =
     (if m = 2 then (if is_leap y then 29 else 28)
      else if m = 4 \<or> m = 6 \<or> m = 9 \<or> m = 11 then 30 else 31)"

definition field :: "char \<Rightarrow> nat \<Rightarrow> (char \<times> nat) list \<Rightarrow> nat" where
  "field k dflt fields = (case map_of fields k of None \<Rightarrow> dflt | Some v \<Rightarrow> v)"

text \<open>\<^verbatim>\<open>datetime.strptime(date_str, fmt)\<close>: the date, or \<open>None\<close> for its ValueError.\<close>

definition strptime :: "string \<Rightarrow> string \<Rightarrow> (nat \<times> nat \<times> nat) option" where
  "strptime date_str fmt =
     (case format_matches fmt date_str [] of
        [] \<Rightarrow> None
      | (fields, rest) # others \<Rightarrow>
          (if rest \<noteq> [] then None
           else (let y = field CHR ''Y'' 1900 fields;
                     m = field CHR ''m'' 1 fields;
                     d = field CHR ''d'' 1 fields
                 in if 1 \<le> y \<and> 1 \<le> m \<and> m \<le> 12 \<and> 1 \<le> d \<and> d \<le> days_in_month y m
                    then Some (y, m, d) else None)))"

section \<open>The rule set (validation.py)\<close>

text \<open>
  An issue is the message a rule appends. The messages are f-strings; the model keeps
  the message kind and the value the text is formatted from:
  \<^item> \<open>EmptyValue\<close>: \<^verbatim>\<open>Empty (should be non-empty)\<close>
  \<^item> \<open>ShouldBePositive v\<close>: \<^verbatim>\<open>{value} (should be positive)\<close>
  \<^item> \<open>ShouldBeInteger v\<close>: \<^verbatim>\<open>{value} (should be integer)\<close>
  \<^item> \<open>DuplicateID v\<close>: \<^verbatim>\<open>{value} (duplicate ID)\<close>
  \<^item> \<open>TooShort s n\<close>: \<^verbatim>\<open>'{s}' (too short, min n chars)\<close>
  \<^item> \<open>TooLong s n\<close>: \<^verbatim>\<open>'{s}' (too long, max n chars)\<close>
  \<^item> \<open>ShouldBeAlphabetic s\<close>: \<^verbatim>\<open>'{name}' (should be alphabetic)\<close>
  \<^item> \<open>InvalidEmailFormat s\<close>: \<^verbatim>\<open>'{email}' (invalid email format)\<close>
  \<^item> \<open>WrongDigitCount s n\<close>: \<^verbatim>\<open>'{phone}' (should have 10 digits, found {n})\<close>
  \<^item> \<open>InvalidDateValue\<close>: \<^verbatim>\<open>'invalid_date' (invalid date value)\<close>
  \<^item> \<open>UnrecognizedDateFormat s\<close>: \<^verbatim>\<open>'{date_str}' (unrecognized date format)\<close>
  \<^item> \<open>ShouldBeNonNegative x\<close>: \<^verbatim>\<open>{income_val} (should be non-negative)\<close>
  \<^item> \<open>ExceedsLimit x\<close>: \<^verbatim>\<open>{income_val} (exceeds $10M limit)\<close>
  \<^item> \<open>ShouldBeNumeric v\<close>: \<^verbatim>\<open>'{value}' (should be numeric)\<close>
  \<^item> \<open>EmptyStatus\<close>: \<^verbatim>\<open>Empty (should be one of: active, inactive, suspended)\<close>
  \<^item> \<open>InvalidStatus v\<close>: \<^verbatim>\<open>'{value}' (invalid value, should be: active, inactive, suspended)\<close>
\<close>

datatype issue =
    EmptyValue
  | ShouldBePositive pyval
  | ShouldBeInteger pyval
  | DuplicateID pyval
  | TooShort string nat
  | TooLong string nat
  | ShouldBeAlphabetic string
  | InvalidEmailFormat string
  | WrongDigitCount string nat
  | InvalidDateValue
  | UnrecognizedDateFormat string
  | ShouldBeNonNegative pyfloat
  | ExceedsLimit pyfloat
  | ShouldBeNumeric pyval
  | EmptyStatus
  | InvalidStatus pyval

text \<open>
  The body of the loop of \<^verbatim>\<open>validate_customer_id\<close> for one value: the issues of
  the record and the set of identifiers seen after it. An OverflowError of
  \<^verbatim>\<open>int(value)\<close> is not caught by the \<^verbatim>\<open>except (ValueError, TypeError)\<close> clause.
\<close>

definition customer_id_check :: "pyval \<Rightarrow> pyval list \<Rightarrow> error + (issue list \<times> pyval list)" where
  "customer_id_check v ids_seen =
     (case (if isna v then Inr [EmptyValue]
            else (case py_int v of
                    Inr val \<Rightarrow> Inr (if val \<le> 0 then [ShouldBePositive v] else [])
                  | Inl ValueError \<Rightarrow> Inr [ShouldBeInteger v]
                  | Inl TypeError \<Rightarrow> Inr [ShouldBeInteger v]
                  | Inl e \<Rightarrow> Inl e)) of
        Inl e \<Rightarrow> Inl e
      | Inr issues \<Rightarrow>
          (if notna v then
             (if py_in v ids_seen then Inr (issues @ [DuplicateID v], ids_seen)
              else Inr (issues, v # ids_seen))
           else Inr (issues, ids_seen)))"

text \<open>\<^verbatim>\<open>re.match(r'^[a-zA-Z\s\-]+$', name)\<close> on a stripped name.\<close>

definition name_pattern :: "string \<Rightarrow> bool" where
  "name_pattern name =
     (name \<noteq> [] \<and> list_all (\<lambda>c. is_alpha c \<or> py_isspace c \<or> c = CHR ''-'') name)"

definition name_issues :: "pyval \<Rightarrow> issue list" where
  "name_issues v =
     (if isna v \<or> strip (py_str v) = [] then [EmptyValue]
      else (let name = strip (py_str v) in
              (if length name < 2 then [TooShort name 2]
               else if length name > 50 then [TooLong name 50] else [])
              @ (if \<not> name_pattern name then [ShouldBeAlphabetic name] else [])))"

text \<open>
  \<^verbatim>\<open>^[a-zA-Z0-9._%+-]+@[a-zA-Z0-9.-]+\.[a-zA-Z]{2,}$\<close> on a stripped text: a local
  part, the first \<^verbatim>\<open>@\<close>, and a domain whose last dot is followed by two or more
  letters and preceded by at least one domain character.
\<close>

definition email_pattern :: "string \<Rightarrow> bool" where
  "email_pattern email =
     (case split_at (\<lambda>c. c = CHR ''@'') email of
        (local_part, None) \<Rightarrow> False
      | (local_part, Some domain) \<Rightarrow>
          local_part \<noteq> []
          \<and> list_all (\<lambda>c. is_alpha c \<or> is_digit c \<or> c \<in> set ''._%+-'') local_part
          \<and> (case split_at (\<lambda>c. c = CHR ''.'') (rev domain) of
                (tld_rev, None) \<Rightarrow> False
              | (tld_rev, Some host_rev) \<Rightarrow>
                  host_rev \<noteq> []
                  \<and> list_all (\<lambda>c. is_alpha c \<or> is_digit c \<or> c \<in> set ''.-'') host_rev
                  \<and> 2 \<le> length tld_rev \<and> list_all is_alpha tld_rev))"

definition email_issues :: "pyval \<Rightarrow> issue list" where
  "email_issues v =
     (if isna v \<or> strip (py_str v) = [] then [EmptyValue]
      else (let email = strip (py_str v) in
              if \<not> email_pattern email then [InvalidEmailFormat email] else []))"

definition phone_issues :: "pyval \<Rightarrow> issue list" where
  "phone_issues v =
     (if isna v \<or> strip (py_str v) = [] then [EmptyValue]
      else (let phone = strip (py_str v); digits = filter is_digit phone in
              if length digits \<noteq> 10 then [WrongDigitCount phone (length digits)] else []))"

definition formats :: "string list" where
  "formats = [''%Y-%m-%d'', ''%Y/%m/%d'', ''%m/%d/%Y'']"

text \<open>The loop over the formats: \<open>parsed\<close> after it.\<close>

fun try_formats :: "string list \<Rightarrow> string \<Rightarrow> bool" where
  "try_formats [] date_str = False"
| "try_formats (fmt # fmts) date_str =
     (case strptime date_str fmt of Some d \<Rightarrow> True | None \<Rightarrow> try_formats fmts date_str)"

definition date_issues :: "pyval \<Rightarrow> issue list" where
  "date_issues v =
     (if isna v \<or> strip (py_str v) = [] then [EmptyValue]
      else (let date_str = strip (py_str v) in
              if lower date_str = ''invalid_date'' then [InvalidDateValue]
              else if \<not> try_formats formats date_str then [UnrecognizedDateFormat date_str]
              else []))"

definition address_issues :: "pyval \<Rightarrow> issue list" where
  "address_issues v =
     (if isna v \<or> strip (py_str v) = [] then [EmptyValue]
      else (let address = strip (py_str v) in
              if length address < 10 then [TooShort address 10]
              else if length address > 200 then [TooLong address 200] else []))"

text \<open>The body of the loop of \<^verbatim>\<open>validate_income\<close>, with its try/except.\<close>

definition income_check :: "pyval \<Rightarrow> error + issue list" where
  "income_check v =
     (if isna v then Inr [EmptyValue]
      else (case py_float v of
              Inr income_val \<Rightarrow>
                Inr (if float_less income_val 0 then [ShouldBeNonNegative income_val]
                     else if float_greater income_val 10000000 then [ExceedsLimit income_val]
                     else [])
            | Inl ValueError \<Rightarrow> Inr [ShouldBeNumeric v]
            | Inl TypeError \<Rightarrow> Inr [ShouldBeNumeric v]
            | Inl e \<Rightarrow> Inl e))"

definition valid_statuses :: "string list" where
  "valid_statuses = [''active'', ''inactive'', ''suspended'']"

definition account_status_issues :: "pyval \<Rightarrow> issue list" where
  "account_status_issues v =
     (if isna v \<or> strip (py_str v) = [] then [EmptyStatus]
      else (let status = lower (strip (py_str v)) in
              if status \<notin> set valid_statuses then [InvalidStatus v] else []))"

section \<open>The validation engine (validation.py, class DataValidator)\<close>

text \<open>
  A DataFrame: its number of rows (\<^verbatim>\<open>len(df)\<close>) and its columns by name;
  \<^verbatim>\<open>df[name]\<close> raises KeyError for a name it does not have. In a well-formed
  DataFrame the column names are distinct and every column has one cell per row.
\<close>

record dataframe =
  nrows :: nat
  columns :: "(string \<times> pyval list) list"

definition wf_df :: "dataframe \<Rightarrow> bool" where
  "wf_df d = (distinct (map fst (columns d))
              \<and> list_all (\<lambda>cx. length (snd cx) = nrows d) (columns d))"

definition get_column :: "dataframe \<Rightarrow> string \<Rightarrow> error + pyval list" where
  "get_column d name =
     (case map_of (columns d) name of None \<Rightarrow> Inl (KeyError name) | Some xs \<Rightarrow> Inr xs)"

record failure =
  row :: nat
  column :: string
  issues :: "issue list"

record validator =
  df :: dataframe
  failures :: "failure list"
  passed_rows :: "nat set"

text \<open>\<^verbatim>\<open>DataValidator.__init__\<close>.\<close>

definition DataValidator :: "dataframe \<Rightarrow> validator" where
  "DataValidator d = \<lparr>df = d, failures = [], passed_rows = {0..<nrows d}\<rparr>"

definition add_failure :: "nat \<Rightarrow> string \<Rightarrow> issue list \<Rightarrow> validator \<Rightarrow> validator" where
  "add_failure row_idx col iss st =
     st\<lparr>failures := failures st @ [\<lparr>row = row_idx + 2, column = col, issues = iss\<rparr>],
        passed_rows := (if row_idx \<in> passed_rows st then passed_rows st - {row_idx}
                        else passed_rows st)\<rparr>"

text \<open>
  A method of the validator mutates the object and returns nothing, or raises: the
  result is \<open>Inr\<close> the validator after the call, or \<open>Inl\<close> the exception together
  with the validator as the call left it.
\<close>

type_synonym outcome = "(error \<times> validator) + validator"

text \<open>The loop of \<^verbatim>\<open>validate_customer_id\<close> from row \<open>idx\<close> on.\<close>

fun customer_id_rows :: "nat \<Rightarrow> pyval list \<Rightarrow> pyval list \<Rightarrow> validator \<Rightarrow> outcome" where
  "customer_id_rows idx [] ids_seen st = Inr st"
| "customer_id_rows idx (v # rest) ids_seen st =
     (case customer_id_check v ids_seen of
        Inl e \<Rightarrow> Inl (e, st)
      | Inr (iss, ids_seen') \<Rightarrow>
          customer_id_rows (Suc idx) rest ids_seen'
            (if iss \<noteq> [] then add_failure idx ''customer_id'' iss st else st))"

definition validate_customer_id :: "validator \<Rightarrow> outcome" where
  "validate_customer_id st =
     (case get_column (df st) ''customer_id'' of
        Inl e \<Rightarrow> Inl (e, st)
      | Inr xs \<Rightarrow> customer_id_rows 0 xs [] st)"

text \<open>
  The other validators share one loop: for each value of the column in row order,
  the rule gives the issues, and a non-empty list is recorded by \<open>add_failure\<close>.
\<close>

fun validate_rows :: "(pyval \<Rightarrow> error + issue list) \<Rightarrow> string \<Rightarrow> nat \<Rightarrow> pyval list \<Rightarrow> validator \<Rightarrow> outcome" where
  "validate_rows check col idx [] st = Inr st"
| "validate_rows check col idx (v # rest) st =
     (case check v of
        Inl e \<Rightarrow> Inl (e, st)
      | Inr iss \<Rightarrow>
          validate_rows check col (Suc idx) rest
            (if iss \<noteq> [] then add_failure idx col iss st else st))"

definition validate_column :: "(pyval \<Rightarrow> error + issue list) \<Rightarrow> string \<Rightarrow> validator \<Rightarrow> outcome" where
  "validate_column check col st =
     (case get_column (df st) col of
        Inl e \<Rightarrow> Inl (e, st)
      | Inr xs \<Rightarrow> validate_rows check col 0 xs st)"

definition validate_name :: "string \<Rightarrow> validator \<Rightarrow> outcome" where
  "validate_name col st = validate_column (\<lambda>v. Inr (name_issues v)) col st"

definition validate_email :: "validator \<Rightarrow> outcome" where
  "validate_email st = validate_column (\<lambda>v. Inr (email_issues v)) ''email'' st"

definition validate_phone :: "validator \<Rightarrow> outcome" where
  "validate_phone st = validate_column (\<lambda>v. Inr (phone_issues v)) ''phone'' st"

definition validate_date :: "string \<Rightarrow> validator \<Rightarrow> outcome" where
  "validate_date col st = validate_column (\<lambda>v. Inr (date_issues v)) col st"

definition validate_address :: "validator \<Rightarrow> outcome" where
  "validate_address st = validate_column (\<lambda>v. Inr (address_issues v)) ''address'' st"

definition validate_income :: "validator \<Rightarrow> outcome" where
  "validate_income st = validate_column income_check ''income'' st"

definition validate_account_status :: "validator \<Rightarrow> outcome" where
  "validate_account_status st =
     validate_column (\<lambda>v. Inr (account_status_issues v)) ''account_status'' st"

text \<open>One call after the other; an exception ends the sequence.\<close>

fun run_steps :: "(validator \<Rightarrow> outcome) list \<Rightarrow> validator \<Rightarrow> outcome" where
  "run_steps [] st = Inr st"
| "run_steps (step # steps) st =
     (case step st of Inl e \<Rightarrow> Inl e | Inr st' \<Rightarrow> run_steps steps st')"

definition run_all_validations :: "validator \<Rightarrow> outcome" where
  "run_all_validations st =
     run_steps
       [validate_customer_id,
        validate_name ''first_name'',
        validate_name ''last_name'',
        validate_email,
        validate_phone,
        validate_date ''date_of_birth'',
        validate_address,
        validate_income,
        validate_account_status,
        validate_date ''created_date''] st"


definition column_order :: "string list" where
  "column_order =
     [''customer_id'', ''first_name'', ''last_name'', ''email'', ''phone'',
      ''date_of_birth'', ''address'', ''income'', ''account_status'', ''created_date'']"




section \<open>The quality profile and its severity tally (data_quality.py)\<close>

text \<open>
  The profiler's findings are f-strings beginning \<^verbatim>\<open>Row {idx+2}:\<close>; the model keeps
  the kind, the row number and the value shown:
  \<^item> \<open>InvalidDateText r\<close>: \<^verbatim>\<open>Row r: invalid_date\<close>
  \<^item> \<open>SlashDate r s\<close>: \<^verbatim>\<open>Row r: {date_str} (YYYY/MM/DD format)\<close>, or
    \<^verbatim>\<open>(MM/DD/YYYY format)\<close> for the created date
  \<^item> \<open>InvalidDateOfBirth r\<close>: \<^verbatim>\<open>Row r: date_of_birth = 'invalid_date'\<close>
  \<^item> \<open>InvalidCreatedDate r\<close>: \<^verbatim>\<open>Row r: created_date = 'invalid_date'\<close>
  \<^item> \<open>NegativeIncome r x\<close>: \<^verbatim>\<open>Row r: income = {income_val} (negative)\<close>
  \<^item> \<open>UnrealisticAge r a\<close>: \<^verbatim>\<open>Row r: age = {age} (unrealistic)\<close>
  \<^item> \<open>InvalidCategory r v\<close>: \<^verbatim>\<open>Row r: '{status}' (invalid value)\<close>
  \<^item> \<open>MissingCategory r\<close>: \<^verbatim>\<open>Row r: Empty (missing value)\<close>
\<close>

datatype finding =
    InvalidDateText nat
  | SlashDate nat string
  | InvalidDateOfBirth nat
  | InvalidCreatedDate nat
  | NegativeIncome nat pyfloat
  | UnrealisticAge nat int
  | InvalidCategory nat pyval
  | MissingCategory nat

text \<open>The loop \<^verbatim>\<open>for idx, v in enumerate(column)\<close> that appends what its body finds.\<close>

fun collect_rows :: "(nat \<Rightarrow> pyval \<Rightarrow> 'a list) \<Rightarrow> nat \<Rightarrow> pyval list \<Rightarrow> 'a list" where
  "collect_rows body idx [] = []"
| "collect_rows body idx (v # rest) = body idx v @ collect_rows body (Suc idx) rest"

text \<open>
  \<^verbatim>\<open>analyze_completeness\<close>: for each column of the DataFrame, in column order, the
  number of missing values (the percentage, a float, is left out).
\<close>

definition is_empty_string :: "pyval \<Rightarrow> bool" where
  "is_empty_string v = py_eq v (PStr [])"

definition missing_count :: "nat \<Rightarrow> pyval list \<Rightarrow> int" where
  "missing_count row_count xs =
     (let non_null_count = int (length (filter notna xs));
          empty_strings = int (length (filter is_empty_string xs));
          valid_count = non_null_count - empty_strings
      in int row_count - valid_count)"

definition analyze_completeness :: "dataframe \<Rightarrow> (string \<times> int) list" where
  "analyze_completeness d = map (\<lambda>(col, xs). (col, missing_count (nrows d) xs)) (columns d)"

text \<open>\<^verbatim>\<open>analyze_format_issues\<close>.\<close>

fun is_infix :: "string \<Rightarrow> string \<Rightarrow> bool" where
  "is_infix pat [] = (pat = [])"
| "is_infix pat (c # cs) = (take (length pat) (c # cs) = pat \<or> is_infix pat cs)"

definition py_isdigit :: "char \<Rightarrow> bool" where
  "py_isdigit c = (is_digit c \<or> code c = 178 \<or> code c = 179 \<or> code c = 185)"

definition phone_format :: "string \<Rightarrow> string" where
  "phone_format phone =
     (if is_infix ''555-'' phone \<and> length (filter (\<lambda>c. c = CHR ''-'') phone) = 2 then ''XXX-XXX-XXXX''
      else if CHR ''('' \<in> set phone \<and> CHR '')'' \<in> set phone then ''(XXX) XXX-XXXX''
      else if CHR ''.'' \<in> set phone then ''XXX.XXX.XXXX''
      else if phone \<noteq> [] \<and> list_all py_isdigit phone \<and> length phone = 10 then ''XXXXXXXXXX''
      else ''OTHER'')"

definition date_of_birth_finding :: "nat \<Rightarrow> pyval \<Rightarrow> finding list" where
  "date_of_birth_finding idx date_val =
     (if notna date_val \<and> \<not> is_empty_string date_val then
        (let date_str = strip (py_str date_val) in
           if date_str = ''invalid_date'' then [InvalidDateText (idx + 2)]
           else if CHR ''/'' \<in> set date_str then [SlashDate (idx + 2) date_str]
           else [])
      else [])"

definition created_date_finding :: "nat \<Rightarrow> pyval \<Rightarrow> finding list" where
  "created_date_finding idx date_val =
     (if notna date_val \<and> \<not> is_empty_string date_val then
        (let date_str = strip (py_str date_val) in
           if date_str = ''invalid_date'' then [InvalidDateText (idx + 2)]
           else if CHR ''/'' \<in> set date_str \<and> py_isdigit (hd date_str) then [SlashDate (idx + 2) date_str]
           else [])
      else [])"

record format_issues =
  phone_formats :: "string list"
  date_of_birth_issues :: "finding list"
  created_date_issues :: "finding list"

definition analyze_format_issues :: "dataframe \<Rightarrow> error + format_issues" where
  "analyze_format_issues d =
     (case get_column d ''phone'' of Inl e \<Rightarrow> Inl e | Inr phones \<Rightarrow>
      (case get_column d ''date_of_birth'' of Inl e \<Rightarrow> Inl e | Inr dobs \<Rightarrow>
       (case get_column d ''created_date'' of Inl e \<Rightarrow> Inl e | Inr created \<Rightarrow>
          Inr \<lparr>phone_formats = remdups (map (\<lambda>v. phone_format (py_str v)) phones),
               date_of_birth_issues = collect_rows date_of_birth_finding 0 dobs,
               created_date_issues = collect_rows created_date_finding 0 created\<rparr>)))"

text \<open>\<^verbatim>\<open>analyze_uniqueness\<close>: \<^verbatim>\<open>nunique()\<close> counts the distinct values that are not NaN.\<close>

fun distinct_values :: "pyval list \<Rightarrow> pyval list \<Rightarrow> pyval list" where
  "distinct_values seen [] = seen"
| "distinct_values seen (v # rest) =
     distinct_values (if isna v \<or> py_in v seen then seen else v # seen) rest"

definition nunique :: "pyval list \<Rightarrow> nat" where
  "nunique xs = length (distinct_values [] xs)"

record uniqueness =
  total :: int
  unique :: int
  duplicates :: int

definition analyze_uniqueness :: "dataframe \<Rightarrow> error + uniqueness" where
  "analyze_uniqueness d =
     (case get_column d ''customer_id'' of Inl e \<Rightarrow> Inl e | Inr ids \<Rightarrow>
        (let total_ids = int (length ids); unique_ids = int (nunique ids)
         in Inr \<lparr>total = total_ids, unique = unique_ids, duplicates = total_ids - unique_ids\<rparr>))"

text \<open>\<^verbatim>\<open>analyze_invalid_values\<close>; \<open>current_year\<close> is \<^verbatim>\<open>datetime.now().year\<close>. The two
  bare \<^verbatim>\<open>except: pass\<close> clauses swallow every exception.\<close>

definition invalid_dob_finding :: "nat \<Rightarrow> pyval \<Rightarrow> finding list" where
  "invalid_dob_finding idx date_val =
     (if notna date_val \<and> strip (py_str date_val) = ''invalid_date''
      then [InvalidDateOfBirth (idx + 2)] else [])"

definition invalid_created_finding :: "nat \<Rightarrow> pyval \<Rightarrow> finding list" where
  "invalid_created_finding idx date_val =
     (if notna date_val \<and> strip (py_str date_val) = ''invalid_date''
      then [InvalidCreatedDate (idx + 2)] else [])"

definition negative_income_finding :: "nat \<Rightarrow> pyval \<Rightarrow> finding list" where
  "negative_income_finding idx income =
     (if notna income then
        (case py_float income of
           Inr income_val \<Rightarrow>
             if float_less income_val 0 then [NegativeIncome (idx + 2) income_val] else []
         | Inl e \<Rightarrow> [])
      else [])"

definition age_finding :: "int \<Rightarrow> nat \<Rightarrow> pyval \<Rightarrow> finding list" where
  "age_finding current_year idx date_val =
     (if notna date_val \<and> strip (py_str date_val) \<notin> set [[], ''invalid_date''] then
        (if CHR ''-'' \<in> set (py_str date_val) then
           (case int_of_str (takeWhile (\<lambda>c. c \<noteq> CHR ''-'') (py_str date_val)) of
              Inr year \<Rightarrow>
                (let age = current_year - year in
                   if age > 150 then [UnrealisticAge (idx + 2) age] else [])
            | Inl e \<Rightarrow> [])
         else [])
      else [])"

definition analyze_invalid_values :: "int \<Rightarrow> dataframe \<Rightarrow> error + finding list" where
  "analyze_invalid_values current_year d =
     (case get_column d ''date_of_birth'' of Inl e \<Rightarrow> Inl e | Inr dobs \<Rightarrow>
      (case get_column d ''created_date'' of Inl e \<Rightarrow> Inl e | Inr created \<Rightarrow>
       (case get_column d ''income'' of Inl e \<Rightarrow> Inl e | Inr incomes \<Rightarrow>
          Inr (collect_rows invalid_dob_finding 0 dobs
               @ collect_rows invalid_created_finding 0 created
               @ collect_rows negative_income_finding 0 incomes
               @ collect_rows (age_finding current_year) 0 dobs))))"

text \<open>\<^verbatim>\<open>analyze_categorical_validity\<close>.\<close>

definition categorical_finding :: "nat \<Rightarrow> pyval \<Rightarrow> finding list" where
  "categorical_finding idx status =
     (if notna status \<and> strip (py_str status) \<noteq> [] then
        (let status_clean = strip (py_str status) in
           if status_clean \<notin> set valid_statuses then [InvalidCategory (idx + 2) status] else [])
      else if isna status \<or> strip (py_str status) = [] then [MissingCategory (idx + 2)]
      else [])"

definition analyze_categorical_validity :: "dataframe \<Rightarrow> error + finding list" where
  "analyze_categorical_validity d =
     (case get_column d ''account_status'' of Inl e \<Rightarrow> Inl e | Inr statuses \<Rightarrow>
        Inr (collect_rows categorical_finding 0 statuses))"

text \<open>The severity assessment of \<^verbatim>\<open>generate_report\<close>: the three counters it prints.\<close>

record tally =
  critical :: int
  high :: int
  medium :: int

text \<open>The loop over \<^verbatim>\<open>completeness.items()\<close>.\<close>

fun count_missing :: "(string \<times> int) list \<Rightarrow> tally \<Rightarrow> tally" where
  "count_missing [] t = t"
| "count_missing ((col, missing) # rest) t =
     count_missing rest
       (if missing > 0 then
          (if col \<in> set [''first_name'', ''last_name'', ''email'', ''address'']
           then t\<lparr>medium := medium t + missing\<rparr>
           else if col \<in> set [''customer_id''] then t\<lparr>critical := critical t + missing\<rparr>
           else t\<lparr>medium := medium t + missing\<rparr>)
        else t)"

definition severity :: "(string \<times> int) list \<Rightarrow> format_issues \<Rightarrow> uniqueness \<Rightarrow> finding list \<Rightarrow> finding list \<Rightarrow> tally" where
  "severity completeness fmt uniq invalid_values categorical_issues =
     (let t0 = \<lparr>critical = 0, high = 0, medium = 0\<rparr>;
          t1 = (if date_of_birth_issues fmt \<noteq> [] \<or> created_date_issues fmt \<noteq> []
                then t0\<lparr>high := high t0 + (int (length (date_of_birth_issues fmt))
                                           + int (length (created_date_issues fmt)))\<rparr>
                else t0);
          t2 = (if invalid_values \<noteq> [] then t1\<lparr>high := high t1 + int (length invalid_values)\<rparr> else t1);
          t3 = (if categorical_issues \<noteq> []
                then t2\<lparr>medium := medium t2 + int (length categorical_issues)\<rparr> else t2);
          t4 = (if duplicates uniq > 0 then t3\<lparr>critical := critical t3 + duplicates uniq\<rparr> else t3)
      in count_missing completeness t4)"

text \<open>\<^verbatim>\<open>main\<close> of the profiler after loading: the analyses in the order they are called,
  and the tally of the report built from them.\<close>

definition quality_tally :: "int \<Rightarrow> dataframe \<Rightarrow> error + tally" where
  "quality_tally current_year d =
     (let completeness = analyze_completeness d in
      case analyze_format_issues d of Inl e \<Rightarrow> Inl e | Inr fmt \<Rightarrow>
      (case analyze_uniqueness d of Inl e \<Rightarrow> Inl e | Inr uniq \<Rightarrow>
       (case analyze_invalid_values current_year d of Inl e \<Rightarrow> Inl e | Inr invalid_values \<Rightarrow>
        (case analyze_categorical_validity d of Inl e \<Rightarrow> Inl e | Inr categorical_issues \<Rightarrow>
           Inr (severity completeness fmt uniq invalid_values categorical_issues)))))"

section \<open>Datasets that differ in one cell\<close>

text \<open>The dataset \<open>d\<close> with the cell of column \<open>col\<close> in row \<open>i\<close> replaced by \<open>v\<close>.\<close>

definition set_cell :: "dataframe \<Rightarrow> string \<Rightarrow> nat \<Rightarrow> pyval \<Rightarrow> dataframe" where
  "set_cell d col i v =
     d\<lparr>columns := map (\<lambda>(c, xs). if c = col then (c, xs[i := v]) else (c, xs)) (columns d)\<rparr>"

section \<open>What a run leaves in the validator\<close>

text \<open>The validator after a call, whether it returned or raised.\<close>

definition state_of :: "outcome \<Rightarrow> validator" where
  "state_of r = (case r of Inl (e, st) \<Rightarrow> st | Inr st \<Rightarrow> st)"

text \<open>
  The failures a loop appends, as a list: those of the rows before the first row whose
  check raises. \<open>new_failures\<close> follows \<open>validate_rows\<close> and \<open>cid_failures\<close>
  follows \<open>customer_id_rows\<close>.
\<close>

fun new_failures :: "(pyval \<Rightarrow> error + issue list) \<Rightarrow> string \<Rightarrow> nat \<Rightarrow> pyval list \<Rightarrow> failure list" where
  "new_failures check col idx [] = []"
| "new_failures check col idx (v # rest) =
     (case check v of
        Inl e \<Rightarrow> []
      | Inr iss \<Rightarrow>
          (if iss \<noteq> [] then [\<lparr>row = idx + 2, column = col, issues = iss\<rparr>] else [])
          @ new_failures check col (Suc idx) rest)"

fun cid_failures :: "nat \<Rightarrow> pyval list \<Rightarrow> pyval list \<Rightarrow> failure list" where
  "cid_failures idx [] ids_seen = []"
| "cid_failures idx (v # rest) ids_seen =
     (case customer_id_check v ids_seen of
        Inl e \<Rightarrow> []
      | Inr (iss, ids_seen') \<Rightarrow>
          (if iss \<noteq> [] then [\<lparr>row = idx + 2, column = ''customer_id'', issues = iss\<rparr>] else [])
          @ cid_failures (Suc idx) rest ids_seen')"

text \<open>The record positions that a list of failures refers to (a row number is the
  position plus 2).\<close>

definition failed_positions :: "failure list \<Rightarrow> nat set" where
  "failed_positions fs = (\<lambda>f. row f - 2) ` set fs"

text \<open>The (row, column) pair a failure is about.\<close>

definition failure_key :: "failure \<Rightarrow> nat \<times> string" where
  "failure_key f = (row f, column f)"

text \<open>An identifier that makes \<^verbatim>\<open>int(value)\<close> overflow: an infinite float.\<close>

fun overflows :: "pyval \<Rightarrow> bool" where
  "overflows (PFloat PosInf t) = True"
| "overflows (PFloat NegInf t) = True"
| "overflows v = False"

text \<open>
  What every validator of \<open>run_all_validations\<close> does with its column \<open>c\<close>: it
  raises the KeyError of a missing column before touching the validator; it returns
  when the column is there (for the identifier column: and holds no infinite float);
  and, returning or raising, it only appends failures of column \<open>c\<close>, at most one for
  a row, each with a non-empty issue list, and takes their positions out of the pass set.
\<close>

definition column_step :: "string \<Rightarrow> (validator \<Rightarrow> outcome) \<Rightarrow> bool" where
  "column_step c step =
     (\<forall>st.
        (\<forall>e. get_column (df st) c = Inl e \<longrightarrow> step st = Inl (e, st))
        \<and> (\<forall>xs. get_column (df st) c = Inr xs \<longrightarrow>
              (c = ''customer_id'' \<longrightarrow> \<not> list_ex overflows xs) \<longrightarrow> (\<exists>st'. step st = Inr st'))
        \<and> (\<exists>new. failures (state_of (step st)) = failures st @ new
              \<and> passed_rows (state_of (step st)) = passed_rows st - failed_positions new
              \<and> df (state_of (step st)) = df st
              \<and> distinct (map row new)
              \<and> (\<forall>f\<in>set new. column f = c \<and> issues f \<noteq> [] \<and> 2 \<le> row f
                    \<and> (\<forall>xs. get_column (df st) c = Inr xs \<longrightarrow> row f < length xs + 2))))"



text \<open>
  A cell that \<^verbatim>\<open>analyze_completeness\<close> counts as missing, and the missing values of
  the columns whose name satisfies \<open>P\<close>, added up over the completeness table.
\<close>

definition missing_cell :: "pyval \<Rightarrow> bool" where
  "missing_cell v = (isna v \<or> is_empty_string v)"

definition missing_total :: "(string \<Rightarrow> bool) \<Rightarrow> dataframe \<Rightarrow> int" where
  "missing_total P d = sum_list (map snd (filter (\<lambda>cm. P (fst cm)) (analyze_completeness d)))"

section \<open>Example datasets\<close>

definition ids_555 :: dataframe where
  "ids_555 = \<lparr>nrows = 3, columns = [(''customer_id'', [PInt 5, PInt 5, PInt 5])]\<rparr>"

definition ids_abc :: dataframe where
  "ids_abc = \<lparr>nrows = 2, columns = [(''customer_id'', [PStr ''abc'', PStr ''abc''])]\<rparr>"

definition dates_ok :: dataframe where
  "dates_ok = \<lparr>nrows = 1, columns = [(''date_of_birth'', [PStr ''1990/01/15''])]\<rparr>"

definition dates_bad :: dataframe where
  "dates_bad = \<lparr>nrows = 1, columns = [(''date_of_birth'', [PStr ''invalid_date''])]\<rparr>"


text \<open>Three customers: the first passes every rule, the other two do not.\<close>

definition customers :: dataframe where
  "customers =
     \<lparr>nrows = 3,
      columns =
        [(''customer_id'', [PInt 1, PInt (- 5), PInt (- 5)]),
         (''first_name'', [PStr ''Ann'', PStr ''7'', PStr ''Bob'']),
         (''last_name'', [PStr ''Lee'', PStr ''Ray'', PStr ''Poe'']),
         (''email'', [PStr ''ann@b.co'', PStr ''ray@c.org'', PStr ''bob@d.net'']),
         (''phone'', [PStr ''555-123-4567'', PStr ''(555) 123-4567'', PStr ''5551234567'']),
         (''date_of_birth'', [PStr ''1990-01-15'', PStr ''invalid_date'', PStr ''1985-07-30'']),
         (''address'', [PStr ''12 Long Street'', PStr ''34 Other Road'', PStr ''56 Third Lane'']),
         (''income'', [PInt 50000, PInt 100, PInt 70000]),
         (''account_status'', [PStr ''active'', PStr ''inactive'', PStr ''suspended'']),
         (''created_date'', [PStr ''2020-01-01'', PStr ''2021-02-03'', PStr ''2022-03-04''])]\<rparr>"


section \<open>Properties of the loops\<close>

lemma state_of_simps [simp]: "state_of (Inr st) = st" "state_of (Inl (e, st)) = st"
  by (simp_all add: state_of_def)

lemma add_failure_fields [simp]:
  "failures (add_failure i col iss st) = failures st @ [\<lparr>row = i + 2, column = col, issues = iss\<rparr>]"
  "passed_rows (add_failure i col iss st) = passed_rows st - {i}"
  "df (add_failure i col iss st) = df st"
  by (auto simp: add_failure_def)

lemma failed_positions_simps [simp]:
  "failed_positions [] = {}"
  "failed_positions (f # fs) = insert (row f - 2) (failed_positions fs)"
  "failed_positions (fs @ gs) = failed_positions fs \<union> failed_positions gs"
  by (auto simp: failed_positions_def)

lemma validate_rows_state:
  "failures (state_of (validate_rows check col idx vs st)) = failures st @ new_failures check col idx vs
   \<and> passed_rows (state_of (validate_rows check col idx vs st))
       = passed_rows st - failed_positions (new_failures check col idx vs)
   \<and> df (state_of (validate_rows check col idx vs st)) = df st"
proof (induction vs arbitrary: idx st)
  case Nil
  show ?case by simp
next
  case (Cons v vs)
  show ?case
  proof (cases "check v")
    case (Inl e)
    then show ?thesis by simp
  next
    case (Inr iss)
    then show ?thesis
      using Cons.IH [of "Suc idx" "if iss \<noteq> [] then add_failure idx col iss st else st"]
      by auto
  qed
qed

lemma customer_id_rows_state:
  "failures (state_of (customer_id_rows idx vs seen st)) = failures st @ cid_failures idx vs seen
   \<and> passed_rows (state_of (customer_id_rows idx vs seen st))
       = passed_rows st - failed_positions (cid_failures idx vs seen)
   \<and> df (state_of (customer_id_rows idx vs seen st)) = df st"
proof (induction vs arbitrary: idx seen st)
  case Nil
  show ?case by simp
next
  case (Cons v vs)
  show ?case
  proof (cases "customer_id_check v seen")
    case (Inl e)
    then show ?thesis by simp
  next
    case (Inr p)
    obtain iss seen' where p: "p = (iss, seen')" by (cases p)
    show ?thesis
      using Inr p Cons.IH [of "Suc idx" seen' "if iss \<noteq> [] then add_failure idx ''customer_id'' iss st else st"]
      by auto
  qed
qed

lemma new_failures_props:
  "f \<in> set (new_failures check col idx vs) \<Longrightarrow>
     column f = col \<and> issues f \<noteq> [] \<and> idx + 2 \<le> row f \<and> row f < idx + 2 + length vs"
proof (induction vs arbitrary: idx)
  case Nil
  then show ?case by simp
next
  case (Cons v vs)
  then show ?case
    by (fastforce split: sum.splits if_splits)
qed

lemma cid_failures_props:
  "f \<in> set (cid_failures idx vs seen) \<Longrightarrow>
     column f = ''customer_id'' \<and> issues f \<noteq> [] \<and> idx + 2 \<le> row f \<and> row f < idx + 2 + length vs"
proof (induction vs arbitrary: idx seen)
  case Nil
  then show ?case by simp
next
  case (Cons v vs)
  then show ?case
    by (fastforce split: sum.splits if_splits prod.splits)
qed

lemma new_failures_distinct: "distinct (map row (new_failures check col idx vs))"
proof (induction vs arbitrary: idx)
  case Nil
  show ?case by simp
next
  case (Cons v vs)
  have "\<And>f. f \<in> set (new_failures check col (Suc idx) vs) \<Longrightarrow> Suc (Suc idx) < row f"
    using new_failures_props [of _ check col "Suc idx" vs] by fastforce
  then show ?case using Cons.IH [of "Suc idx"]
    by (fastforce split: sum.splits)
qed

lemma cid_failures_distinct: "distinct (map row (cid_failures idx vs seen))"
proof (induction vs arbitrary: idx seen)
  case Nil
  show ?case by simp
next
  case (Cons v vs)
  have "\<And>f s. f \<in> set (cid_failures (Suc idx) vs s) \<Longrightarrow> Suc (Suc idx) < row f"
    using cid_failures_props [of _ "Suc idx" vs] by fastforce
  then show ?case using Cons.IH [of "Suc idx"]
    by (fastforce split: sum.splits prod.splits)
qed

subsection \<open>The identifier rule\<close>

lemma py_eq_sym: "py_eq a b = py_eq b a"
  by (cases a rule: isna.cases; cases b rule: isna.cases) auto

lemma py_eq_trans: "py_eq a b \<Longrightarrow> py_eq b c \<Longrightarrow> py_eq a c"
  by (cases a rule: isna.cases; cases b rule: isna.cases; cases c rule: isna.cases) auto

lemma py_eq_notna: "py_eq a b \<Longrightarrow> notna a \<and> notna b"
  by (cases a rule: isna.cases; cases b rule: isna.cases) (auto simp: notna_def)

lemma py_eq_refl: "notna a \<Longrightarrow> py_eq a a"
  by (cases a rule: isna.cases) (auto simp: notna_def)

lemma py_in_Cons [simp]: "py_in u (v # seen) = (py_eq u v \<or> py_in u seen)"
  by (simp add: py_in_def)

lemma py_in_Nil [simp]: "py_in u [] = False"
  by (simp add: py_in_def)

lemma py_in_notna: "py_in u seen \<Longrightarrow> notna u"
  by (auto simp: py_in_def list_ex_iff dest: py_eq_notna)

lemma py_in_trans: "py_eq u v \<Longrightarrow> py_in v seen \<Longrightarrow> py_in u seen"
  by (auto simp: py_in_def list_ex_iff intro: py_eq_trans)

lemma int_of_str_error: "int_of_str s = Inl e \<Longrightarrow> e = ValueError"
  by (auto simp: int_of_str_def split: prod.splits option.splits)

lemma py_int_error: "py_int v = Inl e \<Longrightarrow> e = ValueError \<or> (e = OverflowError \<and> overflows v)"
  by (cases v rule: isna.cases) (auto dest: int_of_str_error)

lemma py_int_overflows: "overflows v \<Longrightarrow> py_int v = Inl OverflowError \<and> \<not> isna v"
  by (cases v rule: isna.cases) auto

lemma customer_id_check_raises:
  "customer_id_check v seen = Inl e \<longleftrightarrow> (e = OverflowError \<and> overflows v)"
proof (cases "overflows v")
  case True
  then show ?thesis
    using py_int_overflows [of v] by (auto simp: customer_id_check_def)
next
  case False
  then show ?thesis
    using py_int_error [of v]
    by (auto simp: customer_id_check_def split: sum.splits error.splits if_splits)
qed

lemma customer_id_check_seen:
  "customer_id_check v seen = Inr (iss, seen') \<Longrightarrow>
     seen' = (if notna v \<and> \<not> py_in v seen then v # seen else seen)"
  by (auto simp: customer_id_check_def split: sum.splits error.splits if_splits)

lemma customer_id_check_dup:
  "customer_id_check v seen = Inr (iss, seen') \<Longrightarrow>
     (DuplicateID w \<in> set iss \<longleftrightarrow> (w = v \<and> py_in v seen))"
  by (auto simp: customer_id_check_def split: sum.splits error.splits if_splits dest: py_in_notna)

lemma customer_id_check_py_in:
  assumes "customer_id_check v seen = Inr (iss, seen')"
  shows "py_in u seen' \<longleftrightarrow> (py_in u seen \<or> py_eq u v)"
proof (cases "notna v \<and> \<not> py_in v seen")
  case True
  then show ?thesis using customer_id_check_seen [OF assms] by auto
next
  case False
  then have s: "seen' = seen" using customer_id_check_seen [OF assms] by auto
  have "py_eq u v \<Longrightarrow> py_in u seen"
  proof -
    assume e: "py_eq u v"
    then have "notna v" using py_eq_notna by blast
    with False have "py_in v seen" by simp
    with e show "py_in u seen" by (rule py_in_trans)
  qed
  with s show ?thesis by auto
qed

lemma cid_failures_dup_sound:
  "f \<in> set (cid_failures idx vs seen) \<Longrightarrow> DuplicateID w \<in> set (issues f) \<Longrightarrow>
     \<exists>i<length vs. row f = idx + i + 2 \<and> w = vs ! i \<and> (py_in w seen \<or> (\<exists>j<i. py_eq w (vs ! j)))"
proof (induction vs arbitrary: idx seen)
  case Nil
  then show ?case by simp
next
  case (Cons v vs)
  show ?case
  proof (cases "customer_id_check v seen")
    case (Inl e)
    with Cons.prems show ?thesis by simp
  next
    case (Inr p)
    obtain iss seen' where p: "customer_id_check v seen = Inr (iss, seen')"
      using Inr by (cases p) simp
    from Cons.prems(1) p
    consider (head) "f = \<lparr>row = idx + 2, column = ''customer_id'', issues = iss\<rparr>"
      | (tail) "f \<in> set (cid_failures (Suc idx) vs seen')"
      by (auto split: if_splits)
    then show ?thesis
    proof cases
      case head
      with Cons.prems(2) have "DuplicateID w \<in> set iss" by simp
      then have "w = v \<and> py_in v seen" using customer_id_check_dup [OF p] by simp
      with head show ?thesis by (intro exI [of _ 0]) simp
    next
      case tail
      from Cons.IH [OF tail Cons.prems(2)]
      obtain i where i: "i < length vs" "row f = Suc idx + i + 2" "w = vs ! i"
        "py_in w seen' \<or> (\<exists>j<i. py_eq w (vs ! j))" by blast
      have "py_in w seen \<or> (\<exists>j<Suc i. py_eq w ((v # vs) ! j))"
      proof -
        from i(4) consider "py_in w seen" | "py_eq w v" | "\<exists>j<i. py_eq w (vs ! j)"
          using customer_id_check_py_in [OF p] by blast
        then show ?thesis
        proof cases
          case 1
          then show ?thesis by simp
        next
          case 2
          then have "py_eq w ((v # vs) ! 0)" by simp
          then show ?thesis by blast
        next
          case 3
          then obtain j where "j < i" "py_eq w (vs ! j)" by blast
          then have "Suc j < Suc i \<and> py_eq w ((v # vs) ! Suc j)" by simp
          then show ?thesis by blast
        qed
      qed
      with i show ?thesis by (intro exI [of _ "Suc i"]) simp
    qed
  qed
qed

lemma cid_failures_dup_complete:
  assumes "\<forall>v\<in>set vs. \<not> overflows v" and "i < length vs"
    and "py_in (vs ! i) seen \<or> (\<exists>j<i. py_eq (vs ! i) (vs ! j))"
  shows "\<exists>f\<in>set (cid_failures idx vs seen). row f = idx + i + 2 \<and> DuplicateID (vs ! i) \<in> set (issues f)"
  using assms
proof (induction vs arbitrary: idx seen i)
  case Nil
  then show ?case by simp
next
  case (Cons v vs)
  have "\<not> overflows v" using Cons.prems(1) by simp
  then obtain iss seen' where p: "customer_id_check v seen = Inr (iss, seen')"
    using customer_id_check_raises [of v seen]
    by (cases "customer_id_check v seen") auto
  show ?case
  proof (cases i)
    case 0
    with Cons.prems(3) have "py_in v seen" by simp
    then have d: "DuplicateID v \<in> set iss" using customer_id_check_dup [OF p] by simp
    then have "iss \<noteq> []" by auto
    with p d 0 show ?thesis by simp
  next
    case (Suc k)
    let ?w = "vs ! k"
    have k: "k < length vs" using Cons.prems(2) Suc by simp
    have "py_in ?w seen' \<or> (\<exists>j<k. py_eq ?w (vs ! j))"
    proof -
      from Cons.prems(3) Suc
      consider "py_in ?w seen" | j where "j < Suc k" "py_eq ?w ((v # vs) ! j)" by auto
      then show ?thesis
      proof cases
        case 1
        then show ?thesis using customer_id_check_py_in [OF p] by simp
      next
        case 2
        show ?thesis
        proof (cases j)
          case 0
          with 2 have "py_eq ?w v" by simp
          then show ?thesis using customer_id_check_py_in [OF p] by simp
        next
          case (Suc j')
          with 2 have "j' < k \<and> py_eq ?w (vs ! j')" by simp
          then show ?thesis by blast
        qed
      qed
    qed
    from Cons.IH [OF _ k this, of "Suc idx"] Cons.prems(1)
    obtain f where "f \<in> set (cid_failures (Suc idx) vs seen')" "row f = Suc idx + k + 2"
      "DuplicateID ?w \<in> set (issues f)" by auto
    with p Suc show ?thesis by auto
  qed
qed

lemma DataValidator_fields [simp]: "df (DataValidator d) = d"
  "failures (DataValidator d) = []" "passed_rows (DataValidator d) = {0..<nrows d}"
  by (simp_all add: DataValidator_def)

lemma validate_customer_id_failures:
  "get_column (df st) ''customer_id'' = Inr xs \<Longrightarrow>
     failures (state_of (validate_customer_id st)) = failures st @ cid_failures 0 xs []
     \<and> passed_rows (state_of (validate_customer_id st))
         = passed_rows st - failed_positions (cid_failures 0 xs [])
     \<and> df (state_of (validate_customer_id st)) = df st"
  using customer_id_rows_state [of 0 xs "[]" st] by (simp add: validate_customer_id_def)

lemma customer_id_rows_completes:
  "(\<exists>st'. customer_id_rows idx vs seen st = Inr st') \<longleftrightarrow> (\<forall>v\<in>set vs. \<not> overflows v)"
proof (induction vs arbitrary: idx seen st)
  case Nil
  show ?case by simp
next
  case (Cons v vs)
  show ?case
  proof (cases "customer_id_check v seen")
    case (Inl e)
    then show ?thesis using customer_id_check_raises [of v seen e] by auto
  next
    case (Inr p)
    obtain iss seen' where p: "p = (iss, seen')" by (cases p)
    have "\<not> overflows v" using Inr customer_id_check_raises [of v seen] by auto
    then show ?thesis using Inr p Cons.IH by simp
  qed
qed

section \<open>The claims about the identifier rule\<close>

lemma int_of_str_abc: "int_of_str ''abc'' = Inl ValueError"
  by code_simp

lemma validate_ids_555:
  assumes "get_column d ''customer_id'' = Inr [PInt 5, PInt 5, PInt 5]"
  shows "validate_customer_id (DataValidator d) =
           Inr \<lparr>df = d,
                failures = [\<lparr>row = 3, column = ''customer_id'', issues = [DuplicateID (PInt 5)]\<rparr>,
                            \<lparr>row = 4, column = ''customer_id'', issues = [DuplicateID (PInt 5)]\<rparr>],
                passed_rows = {0..<nrows d} - {1, 2}\<rparr>"
  using assms
  by (auto simp: validate_customer_id_def DataValidator_def customer_id_check_def add_failure_def
      notna_def)

lemma validate_ids_abc:
  "validate_customer_id (DataValidator ids_abc) =
     Inr \<lparr>df = ids_abc,
          failures = [\<lparr>row = 2, column = ''customer_id'', issues = [ShouldBeInteger (PStr ''abc'')]\<rparr>,
                      \<lparr>row = 3, column = ''customer_id'',
                        issues = [ShouldBeInteger (PStr ''abc''), DuplicateID (PStr ''abc'')]\<rparr>],
          passed_rows = {}\<rparr>"
  by (auto simp: ids_abc_def validate_customer_id_def DataValidator_def customer_id_check_def
      add_failure_def notna_def get_column_def int_of_str_abc)

lemma get_column_ids_555: "get_column ids_555 ''customer_id'' = Inr [PInt 5, PInt 5, PInt 5]"
  by (simp add: ids_555_def get_column_def)

lemma get_column_ids_abc: "get_column ids_abc ''customer_id'' = Inr [PStr ''abc'', PStr ''abc'']"
  by (simp add: ids_abc_def get_column_def)

text \<open>
  C2. When the identifier column holds 5, 5, 5, \<open>validate_customer_id\<close> records exactly
  two failures, for the second and third record (rows 3 and 4), each with the
  duplicate-ID issue alone, and the first record stays in the pass set. In any dataset, a
  record flagged as duplicate has an equal identifier at an earlier position, so a first
  occurrence is never flagged.
\<close>

theorem duplicate_ids_flagged_after_first:
  assumes "get_column d ''customer_id'' = Inr xs"
  shows "(xs = [PInt 5, PInt 5, PInt 5] \<longrightarrow>
            validate_customer_id (DataValidator d) =
              Inr \<lparr>df = d,
                   failures = [\<lparr>row = 3, column = ''customer_id'', issues = [DuplicateID (PInt 5)]\<rparr>,
                               \<lparr>row = 4, column = ''customer_id'', issues = [DuplicateID (PInt 5)]\<rparr>],
                   passed_rows = {0..<nrows d} - {1, 2}\<rparr>)
         \<and> (\<forall>f\<in>set (failures (state_of (validate_customer_id (DataValidator d)))).
              \<forall>w. DuplicateID w \<in> set (issues f) \<longrightarrow>
                (\<exists>i<length xs. \<exists>j<i. row f = i + 2 \<and> w = xs ! i \<and> py_eq (xs ! i) (xs ! j)))"
proof (intro conjI impI ballI allI)
  assume "xs = [PInt 5, PInt 5, PInt 5]"
  with assms show "validate_customer_id (DataValidator d) =
              Inr \<lparr>df = d,
                   failures = [\<lparr>row = 3, column = ''customer_id'', issues = [DuplicateID (PInt 5)]\<rparr>,
                               \<lparr>row = 4, column = ''customer_id'', issues = [DuplicateID (PInt 5)]\<rparr>],
                   passed_rows = {0..<nrows d} - {1, 2}\<rparr>"
    by (simp add: validate_ids_555)
next
  fix f w
  assume f: "f \<in> set (failures (state_of (validate_customer_id (DataValidator d))))"
    and w: "DuplicateID w \<in> set (issues f)"
  have "failures (state_of (validate_customer_id (DataValidator d))) = cid_failures 0 xs []"
    using validate_customer_id_failures [of "DataValidator d" xs] assms by simp
  with f have "f \<in> set (cid_failures 0 xs [])" by simp
  from cid_failures_dup_sound [OF this w]
  show "\<exists>i<length xs. \<exists>j<i. row f = i + 2 \<and> w = xs ! i \<and> py_eq (xs ! i) (xs ! j)"
    by auto
qed

theorem duplicate_ids_flagged_after_first_witness:
  "validate_customer_id (DataValidator ids_555) =
     Inr \<lparr>df = ids_555,
          failures = [\<lparr>row = 3, column = ''customer_id'', issues = [DuplicateID (PInt 5)]\<rparr>,
                      \<lparr>row = 4, column = ''customer_id'', issues = [DuplicateID (PInt 5)]\<rparr>],
          passed_rows = {0}\<rparr>
   \<and> (\<exists>i<length [PInt 5, PInt 5, PInt 5]. \<exists>j<i.
         (3::nat) = i + 2 \<and> PInt 5 = [PInt 5, PInt 5, PInt 5] ! i
         \<and> py_eq ([PInt 5, PInt 5, PInt 5] ! i) ([PInt 5, PInt 5, PInt 5] ! j))"
proof -
  note main = duplicate_ids_flagged_after_first [OF get_column_ids_555]
  have p: "{0..<nrows ids_555} - {1, 2} = {0}"
    by (auto simp: ids_555_def)
  have r: "validate_customer_id (DataValidator ids_555) =
     Inr \<lparr>df = ids_555,
          failures = [\<lparr>row = 3, column = ''customer_id'', issues = [DuplicateID (PInt 5)]\<rparr>,
                      \<lparr>row = 4, column = ''customer_id'', issues = [DuplicateID (PInt 5)]\<rparr>],
          passed_rows = {0}\<rparr>"
    using main p by simp
  let ?f = "\<lparr>row = 3, column = ''customer_id'', issues = [DuplicateID (PInt 5)]\<rparr>"
  have "?f \<in> set (failures (state_of (validate_customer_id (DataValidator ids_555))))"
    by (simp add: r)
  moreover have "DuplicateID (PInt 5) \<in> set (issues ?f)"
    by simp
  ultimately have "\<exists>i<length [PInt 5, PInt 5, PInt 5]. \<exists>j<i.
         row ?f = i + 2 \<and> PInt 5 = [PInt 5, PInt 5, PInt 5] ! i
         \<and> py_eq ([PInt 5, PInt 5, PInt 5] ! i) ([PInt 5, PInt 5, PInt 5] ! j)"
    using main by blast
  with r show ?thesis by simp
qed

text \<open>
  C3 (as stated). The claim says that a malformed identifier is not added to the seen
  state. In the dataset whose identifiers are the text abc twice, abc is not an integer,
  and the second record is flagged as a duplicate of the first.
\<close>

theorem malformed_id_is_seen_counterexample:
  "py_int (PStr ''abc'') = Inl ValueError
   \<and> validate_customer_id (DataValidator ids_abc) =
       Inr \<lparr>df = ids_abc,
            failures = [\<lparr>row = 2, column = ''customer_id'', issues = [ShouldBeInteger (PStr ''abc'')]\<rparr>,
                        \<lparr>row = 3, column = ''customer_id'',
                          issues = [ShouldBeInteger (PStr ''abc''), DuplicateID (PStr ''abc'')]\<rparr>],
            passed_rows = {}\<rparr>"
  by (simp add: validate_ids_abc int_of_str_abc)

text \<open>
  C3 (amended). Every identifier that is present (not NaN) joins the seen state,
  well-formed or not; a missing one does not. On a run of \<open>validate_customer_id\<close>
  that completes, a record is flagged as duplicate exactly when its identifier equals
  (Python's \<^verbatim>\<open>==\<close>, which no NaN satisfies) the identifier of an earlier record.
\<close>

theorem present_ids_are_seen:
  assumes "get_column d ''customer_id'' = Inr xs"
    and "validate_customer_id (DataValidator d) = Inr st"
    and "i < length xs"
  shows "(\<exists>f\<in>set (failures st). row f = i + 2 \<and> DuplicateID (xs ! i) \<in> set (issues f))
         \<longleftrightarrow> (\<exists>j<i. py_eq (xs ! i) (xs ! j))"
proof -
  have fs: "failures st = cid_failures 0 xs []"
    using validate_customer_id_failures [of "DataValidator d" xs] assms(1,2) by simp
  have "\<exists>st'. customer_id_rows 0 xs [] (DataValidator d) = Inr st'"
    using assms(1,2) by (simp add: validate_customer_id_def)
  then have no: "\<forall>v\<in>set xs. \<not> overflows v"
    using customer_id_rows_completes by blast
  show ?thesis
  proof
    assume "\<exists>f\<in>set (failures st). row f = i + 2 \<and> DuplicateID (xs ! i) \<in> set (issues f)"
    then obtain f where f: "f \<in> set (cid_failures 0 xs [])" "row f = i + 2"
      "DuplicateID (xs ! i) \<in> set (issues f)" using fs by auto
    from cid_failures_dup_sound [OF f(1) f(3)] f(2)
    show "\<exists>j<i. py_eq (xs ! i) (xs ! j)" by auto
  next
    assume "\<exists>j<i. py_eq (xs ! i) (xs ! j)"
    then show "\<exists>f\<in>set (failures st). row f = i + 2 \<and> DuplicateID (xs ! i) \<in> set (issues f)"
      using cid_failures_dup_complete [OF no assms(3), of "[]" 0] fs by simp
  qed
qed

theorem present_ids_are_seen_witness:
  "\<exists>f\<in>set (failures
        \<lparr>df = ids_abc,
         failures = [\<lparr>row = 2, column = ''customer_id'', issues = [ShouldBeInteger (PStr ''abc'')]\<rparr>,
                     \<lparr>row = 3, column = ''customer_id'',
                       issues = [ShouldBeInteger (PStr ''abc''), DuplicateID (PStr ''abc'')]\<rparr>],
         passed_rows = {}\<rparr>).
     row f = 1 + 2 \<and> DuplicateID ([PStr ''abc'', PStr ''abc''] ! 1) \<in> set (issues f)"
proof -
  have "\<exists>j<(1::nat). py_eq ([PStr ''abc'', PStr ''abc''] ! 1) ([PStr ''abc'', PStr ''abc''] ! j)"
    by simp
  then show ?thesis
    using present_ids_are_seen [OF get_column_ids_abc validate_ids_abc, of 1] by simp
qed

section \<open>Validators of one column\<close>

lemma validate_column_state:
  "get_column (df st) col = Inr xs \<Longrightarrow>
     failures (state_of (validate_column check col st)) = failures st @ new_failures check col 0 xs
     \<and> passed_rows (state_of (validate_column check col st))
         = passed_rows st - failed_positions (new_failures check col 0 xs)
     \<and> df (state_of (validate_column check col st)) = df st"
  using validate_rows_state [of check col 0 xs st] by (simp add: validate_column_def)

lemma validate_column_missing:
  "get_column (df st) col = Inl e \<Longrightarrow> validate_column check col st = Inl (e, st)"
  by (simp add: validate_column_def)

lemma validate_rows_completes:
  "\<forall>v\<in>set vs. \<exists>iss. check v = Inr iss \<Longrightarrow> \<exists>st'. validate_rows check col idx vs st = Inr st'"
proof (induction vs arbitrary: idx st)
  case Nil
  show ?case by simp
next
  case (Cons v vs)
  then obtain iss where "check v = Inr iss" by auto
  then show ?case using Cons by simp
qed

lemma validate_column_completes:
  "get_column (df st) col = Inr xs \<Longrightarrow> \<forall>v\<in>set xs. \<exists>iss. check v = Inr iss \<Longrightarrow>
     \<exists>st'. validate_column check col st = Inr st'"
  using validate_rows_completes [of xs check col 0 st] by (simp add: validate_column_def)

lemma new_failures_mem:
  assumes "\<forall>v\<in>set vs. \<exists>iss. check v = Inr iss"
  shows "f \<in> set (new_failures check col idx vs) \<longleftrightarrow>
           (\<exists>i<length vs. \<exists>iss. check (vs ! i) = Inr iss \<and> iss \<noteq> []
              \<and> f = \<lparr>row = idx + i + 2, column = col, issues = iss\<rparr>)"
  using assms
proof (induction vs arbitrary: idx)
  case Nil
  show ?case by simp
next
  case (Cons v vs)
  then obtain iss0 where c: "check v = Inr iss0" by auto
  have ih: "f \<in> set (new_failures check col (Suc idx) vs) \<longleftrightarrow>
           (\<exists>i<length vs. \<exists>iss. check (vs ! i) = Inr iss \<and> iss \<noteq> []
              \<and> f = \<lparr>row = Suc idx + i + 2, column = col, issues = iss\<rparr>)"
    using Cons by simp
  show ?case
  proof
    assume "f \<in> set (new_failures check col idx (v # vs))"
    then consider "iss0 \<noteq> []" "f = \<lparr>row = idx + 2, column = col, issues = iss0\<rparr>"
      | "f \<in> set (new_failures check col (Suc idx) vs)"
      using c by (auto split: if_splits)
    then show "\<exists>i<length (v # vs). \<exists>iss. check ((v # vs) ! i) = Inr iss \<and> iss \<noteq> []
              \<and> f = \<lparr>row = idx + i + 2, column = col, issues = iss\<rparr>"
    proof cases
      case 1
      with c show ?thesis by (intro exI [of _ 0]) simp
    next
      case 2
      with ih obtain i iss where "i < length vs" "check (vs ! i) = Inr iss" "iss \<noteq> []"
        "f = \<lparr>row = Suc idx + i + 2, column = col, issues = iss\<rparr>" by blast
      then show ?thesis by (intro exI [of _ "Suc i"]) simp
    qed
  next
    assume "\<exists>i<length (v # vs). \<exists>iss. check ((v # vs) ! i) = Inr iss \<and> iss \<noteq> []
              \<and> f = \<lparr>row = idx + i + 2, column = col, issues = iss\<rparr>"
    then obtain i iss where i: "i < length (v # vs)" "check ((v # vs) ! i) = Inr iss" "iss \<noteq> []"
        "f = \<lparr>row = idx + i + 2, column = col, issues = iss\<rparr>" by blast
    show "f \<in> set (new_failures check col idx (v # vs))"
    proof (cases i)
      case 0
      with i c show ?thesis by simp
    next
      case (Suc k)
      with i have "k < length vs \<and> check (vs ! k) = Inr iss \<and> iss \<noteq> []
        \<and> f = \<lparr>row = Suc idx + k + 2, column = col, issues = iss\<rparr>" by simp
      then have "f \<in> set (new_failures check col (Suc idx) vs)" using ih by blast
      then show ?thesis using c by simp
    qed
  qed
qed

lemma float_of_str_error: "float_of_str s = Inl e \<Longrightarrow> e = ValueError"
  by (auto simp: float_of_str_def split: prod.splits option.splits if_splits)

lemma py_float_error: "py_float v = Inl e \<Longrightarrow> e = ValueError"
  by (cases v) (auto dest: float_of_str_error)

lemma income_check_returns: "\<exists>iss. income_check v = Inr iss"
  using py_float_error [of v]
  by (auto simp: income_check_def split: sum.splits error.splits)


lemma strptime_slash_first: "strptime ''1990/01/15'' ''%Y-%m-%d'' = None"
  by code_simp

lemma strptime_slash_second: "strptime ''1990/01/15'' ''%Y/%m/%d'' = Some (1990, 1, 15)"
  by code_simp

lemma date_issues_slash: "date_issues (PStr ''1990/01/15'') = []"
  by code_simp

lemma date_issues_sentinel: "date_issues (PStr ''invalid_date'') = [InvalidDateValue]"
  by code_simp


section \<open>The claims about the date and income rules\<close>

lemma get_column_dates_ok: "get_column dates_ok ''date_of_birth'' = Inr [PStr ''1990/01/15'']"
  by (simp add: dates_ok_def get_column_def)

lemma get_column_dates_bad: "get_column dates_bad ''date_of_birth'' = Inr [PStr ''invalid_date'']"
  by (simp add: dates_bad_def get_column_def)


text \<open>
  C7. The text 1990/01/15 is refused by the first format of the list and read by the
  second, and \<open>validate_date\<close> records no failure for a record holding it. For a
  record holding the text invalid_date it records the failure whose only issue is the
  invalid-date message; no failure of that record carries the unrecognized-format
  message.
\<close>

theorem date_second_format_and_sentinel:
  assumes "get_column d col = Inr xs" and "i < length xs"
  shows "formats ! 1 = ''%Y/%m/%d''
         \<and> strptime ''1990/01/15'' (formats ! 0) = None
         \<and> strptime ''1990/01/15'' (formats ! 1) = Some (1990, 1, 15)
         \<and> (\<exists>st. validate_date col (DataValidator d) = Inr st
              \<and> (xs ! i = PStr ''1990/01/15'' \<longrightarrow> (\<forall>f\<in>set (failures st). row f \<noteq> i + 2))
              \<and> (xs ! i = PStr ''invalid_date'' \<longrightarrow>
                    \<lparr>row = i + 2, column = col, issues = [InvalidDateValue]\<rparr> \<in> set (failures st)
                    \<and> (\<forall>f\<in>set (failures st). \<forall>s. row f = i + 2 \<longrightarrow>
                          UnrecognizedDateFormat s \<notin> set (issues f))))"
proof -
  let ?check = "\<lambda>v. Inr (date_issues v) :: error + issue list"
  have total: "\<forall>v\<in>set xs. \<exists>iss. ?check v = Inr iss" by simp
  obtain st where st: "validate_date col (DataValidator d) = Inr st"
    using validate_column_completes [of "DataValidator d" col xs ?check] assms(1) total
    by (auto simp: validate_date_def)
  have fs: "failures st = new_failures ?check col 0 xs"
    using validate_column_state [of "DataValidator d" col xs ?check] assms(1) st
    by (simp add: validate_date_def)
  have mem: "\<And>f. f \<in> set (failures st) \<longleftrightarrow>
      (\<exists>k<length xs. date_issues (xs ! k) \<noteq> []
         \<and> f = \<lparr>row = k + 2, column = col, issues = date_issues (xs ! k)\<rparr>)"
    using new_failures_mem [OF total, of _ col 0] fs by auto
  have a: "xs ! i = PStr ''1990/01/15'' \<longrightarrow> (\<forall>f\<in>set (failures st). row f \<noteq> i + 2)"
    using mem by (auto simp: date_issues_slash)
  have b: "xs ! i = PStr ''invalid_date'' \<longrightarrow>
             \<lparr>row = i + 2, column = col, issues = [InvalidDateValue]\<rparr> \<in> set (failures st)"
    using mem [of "\<lparr>row = i + 2, column = col, issues = [InvalidDateValue]\<rparr>"] assms(2)
    by (auto simp: date_issues_sentinel)
  have c: "xs ! i = PStr ''invalid_date'' \<longrightarrow>
             (\<forall>f\<in>set (failures st). \<forall>s. row f = i + 2 \<longrightarrow> UnrecognizedDateFormat s \<notin> set (issues f))"
    using mem by (auto simp: date_issues_sentinel)
  have "formats ! 1 = ''%Y/%m/%d''" "formats ! 0 = ''%Y-%m-%d''"
    by (simp_all add: formats_def)
  then show ?thesis
    using st a b c strptime_slash_first strptime_slash_second by simp
qed

theorem date_second_format_and_sentinel_witness:
  "(\<exists>st. validate_date ''date_of_birth'' (DataValidator dates_ok) = Inr st \<and> failures st = [])
   \<and> (\<exists>st. validate_date ''date_of_birth'' (DataValidator dates_bad) = Inr st
         \<and> \<lparr>row = 0 + 2, column = ''date_of_birth'', issues = [InvalidDateValue]\<rparr> \<in> set (failures st))"
proof -
  have i: "(0::nat) < length [PStr ''1990/01/15'']" "(0::nat) < length [PStr ''invalid_date'']"
    by simp_all
  from date_second_format_and_sentinel [OF get_column_dates_ok i(1)]
  obtain st where st: "validate_date ''date_of_birth'' (DataValidator dates_ok) = Inr st"
    "\<forall>f\<in>set (failures st). row f \<noteq> 0 + 2" by auto
  have "failures st = new_failures (\<lambda>v. Inr (date_issues v)) ''date_of_birth'' 0 [PStr ''1990/01/15'']"
    using validate_column_state [of "DataValidator dates_ok" "''date_of_birth''" _ "\<lambda>v. Inr (date_issues v)"]
      get_column_dates_ok st(1) by (simp add: validate_date_def)
  then have "failures st = []" using st(2) by (auto split: if_splits)
  with st(1) have a: "\<exists>st. validate_date ''date_of_birth'' (DataValidator dates_ok) = Inr st \<and> failures st = []"
    by blast
  from date_second_format_and_sentinel [OF get_column_dates_bad i(2)]
  have b: "\<exists>st. validate_date ''date_of_birth'' (DataValidator dates_bad) = Inr st
         \<and> \<lparr>row = 0 + 2, column = ''date_of_birth'', issues = [InvalidDateValue]\<rparr> \<in> set (failures st)"
    by auto
  from a b show ?thesis by blast
qed



section \<open>The whole run\<close>

lemma column_step_validate_column:
  assumes "\<And>v. \<exists>iss. check v = Inr iss" and "c \<noteq> ''customer_id''"
  shows "column_step c (validate_column check c)"
  unfolding column_step_def
proof (intro allI conjI impI)
  fix st :: validator and e
  assume "get_column (df st) c = Inl e"
  then show "validate_column check c st = Inl (e, st)" by (rule validate_column_missing)
next
  fix st :: validator and xs
  assume "get_column (df st) c = Inr xs"
  then show "\<exists>st'. validate_column check c st = Inr st'"
    using validate_column_completes [of st c xs check] assms(1) by simp
next
  fix st :: validator
  show "\<exists>new. failures (state_of (validate_column check c st)) = failures st @ new
          \<and> passed_rows (state_of (validate_column check c st)) = passed_rows st - failed_positions new
          \<and> df (state_of (validate_column check c st)) = df st
          \<and> distinct (map row new)
          \<and> (\<forall>f\<in>set new. column f = c \<and> issues f \<noteq> [] \<and> 2 \<le> row f
                \<and> (\<forall>xs. get_column (df st) c = Inr xs \<longrightarrow> row f < length xs + 2))"
  proof (cases "get_column (df st) c")
    case (Inl e)
    then have "validate_column check c st = Inl (e, st)" by (rule validate_column_missing)
    then show ?thesis by (intro exI [of _ "[]"]) simp
  next
    case (Inr xs)
    have "\<forall>f\<in>set (new_failures check c 0 xs). column f = c \<and> issues f \<noteq> [] \<and> 2 \<le> row f
                \<and> (\<forall>ys. get_column (df st) c = Inr ys \<longrightarrow> row f < length ys + 2)"
      using new_failures_props [of _ check c 0 xs] Inr by fastforce
    then show ?thesis
      using validate_column_state [OF Inr, of check] new_failures_distinct [of check c 0 xs]
      by (intro exI [of _ "new_failures check c 0 xs"]) simp
  qed
qed

lemma column_step_customer_id: "column_step ''customer_id'' validate_customer_id"
  unfolding column_step_def
proof (intro allI conjI impI)
  fix st :: validator and e
  assume "get_column (df st) ''customer_id'' = Inl e"
  then show "validate_customer_id st = Inl (e, st)" by (simp add: validate_customer_id_def)
next
  fix st :: validator and xs
  assume "get_column (df st) ''customer_id'' = Inr xs"
    and "''customer_id'' = ''customer_id'' \<longrightarrow> \<not> list_ex overflows xs"
  then show "\<exists>st'. validate_customer_id st = Inr st'"
    using customer_id_rows_completes [of 0 xs "[]" st]
    by (simp add: validate_customer_id_def list_ex_iff)
next
  fix st :: validator
  show "\<exists>new. failures (state_of (validate_customer_id st)) = failures st @ new
          \<and> passed_rows (state_of (validate_customer_id st)) = passed_rows st - failed_positions new
          \<and> df (state_of (validate_customer_id st)) = df st
          \<and> distinct (map row new)
          \<and> (\<forall>f\<in>set new. column f = ''customer_id'' \<and> issues f \<noteq> [] \<and> 2 \<le> row f
                \<and> (\<forall>xs. get_column (df st) ''customer_id'' = Inr xs \<longrightarrow> row f < length xs + 2))"
  proof (cases "get_column (df st) ''customer_id''")
    case (Inl e)
    then have "validate_customer_id st = Inl (e, st)" by (simp add: validate_customer_id_def)
    then show ?thesis by (intro exI [of _ "[]"]) simp
  next
    case (Inr xs)
    have "\<forall>f\<in>set (cid_failures 0 xs []). column f = ''customer_id'' \<and> issues f \<noteq> [] \<and> 2 \<le> row f
                \<and> (\<forall>ys. get_column (df st) ''customer_id'' = Inr ys \<longrightarrow> row f < length ys + 2)"
      using cid_failures_props [of _ 0 xs "[]"] Inr by fastforce
    then show ?thesis
      using validate_customer_id_failures [OF Inr] cid_failures_distinct [of 0 xs "[]"]
      by (intro exI [of _ "cid_failures 0 xs []"]) simp
  qed
qed

lemma all_column_steps:
  "list_all2 column_step column_order
     [validate_customer_id,
      validate_name ''first_name'',
      validate_name ''last_name'',
      validate_email,
      validate_phone,
      validate_date ''date_of_birth'',
      validate_address,
      validate_income,
      validate_account_status,
      validate_date ''created_date'']"
proof -
  have name: "\<And>c. c \<noteq> ''customer_id'' \<Longrightarrow> column_step c (validate_name c)"
    using column_step_validate_column [of "\<lambda>v. Inr (name_issues v)"]
    by (simp add: validate_name_def [abs_def])
  have date: "\<And>c. c \<noteq> ''customer_id'' \<Longrightarrow> column_step c (validate_date c)"
    using column_step_validate_column [of "\<lambda>v. Inr (date_issues v)"]
    by (simp add: validate_date_def [abs_def])
  have email: "column_step ''email'' validate_email"
    using column_step_validate_column [of "\<lambda>v. Inr (email_issues v)" "''email''"]
    by (simp add: validate_email_def [abs_def])
  have phone: "column_step ''phone'' validate_phone"
    using column_step_validate_column [of "\<lambda>v. Inr (phone_issues v)" "''phone''"]
    by (simp add: validate_phone_def [abs_def])
  have address: "column_step ''address'' validate_address"
    using column_step_validate_column [of "\<lambda>v. Inr (address_issues v)" "''address''"]
    by (simp add: validate_address_def [abs_def])
  have income: "column_step ''income'' validate_income"
    using column_step_validate_column [of income_check "''income''"] income_check_returns
    by (simp add: validate_income_def [abs_def])
  have status: "column_step ''account_status'' validate_account_status"
    using column_step_validate_column [of "\<lambda>v. Inr (account_status_issues v)" "''account_status''"]
    by (simp add: validate_account_status_def [abs_def])
  show ?thesis
    unfolding column_order_def
    using column_step_customer_id name [of "''first_name''"] name [of "''last_name''"] email phone
      date [of "''date_of_birth''"] address income status date [of "''created_date''"]
    by simp
qed

lemma wf_df_length: "wf_df d \<Longrightarrow> get_column d c = Inr xs \<Longrightarrow> length xs = nrows d"
  by (auto simp: wf_df_def get_column_def list_all_iff split: option.splits dest!: map_of_SomeD)

lemma failure_key_distinct_rows:
  "distinct (map row new) \<Longrightarrow> distinct (map failure_key new)"
  by (auto simp: distinct_map inj_on_def failure_key_def)

lemma run_steps_appends:
  assumes "list_all2 column_step cs steps"
  shows "\<exists>new. failures (state_of (run_steps steps st)) = failures st @ new
          \<and> passed_rows (state_of (run_steps steps st)) = passed_rows st - failed_positions new
          \<and> df (state_of (run_steps steps st)) = df st
          \<and> (\<forall>f\<in>set new. column f \<in> set cs \<and> issues f \<noteq> [] \<and> 2 \<le> row f
                \<and> (wf_df (df st) \<longrightarrow> row f < nrows (df st) + 2))
          \<and> (distinct cs \<longrightarrow> distinct (map failure_key new))"
  using assms
proof (induction cs steps arbitrary: st rule: list_all2_induct)
  case Nil
  show ?case by (intro exI [of _ "[]"]) simp
next
  case (Cons c cs step steps)
  from Cons.hyps(1) obtain new1 where n1:
    "failures (state_of (step st)) = failures st @ new1"
    "passed_rows (state_of (step st)) = passed_rows st - failed_positions new1"
    "df (state_of (step st)) = df st"
    "distinct (map row new1)"
    "\<forall>f\<in>set new1. column f = c \<and> issues f \<noteq> [] \<and> 2 \<le> row f
        \<and> (\<forall>xs. get_column (df st) c = Inr xs \<longrightarrow> row f < length xs + 2)"
    unfolding column_step_def by blast
  have missing: "\<And>e. get_column (df st) c = Inl e \<Longrightarrow> new1 = []"
  proof -
    fix e assume "get_column (df st) c = Inl e"
    then have "step st = Inl (e, st)" using Cons.hyps(1) unfolding column_step_def by blast
    with n1(1) show "new1 = []" by simp
  qed
  have bound1: "\<forall>f\<in>set new1. wf_df (df st) \<longrightarrow> row f < nrows (df st) + 2"
  proof (intro ballI impI)
    fix f assume f: "f \<in> set new1" and wf: "wf_df (df st)"
    then obtain xs where xs: "get_column (df st) c = Inr xs"
      using missing by (cases "get_column (df st) c") auto
    then have "row f < length xs + 2" using n1(5) f by blast
    then show "row f < nrows (df st) + 2" using wf_df_length [OF wf xs] by simp
  qed
  have keys1: "distinct (map failure_key new1)"
    using n1(4) by (rule failure_key_distinct_rows)
  show ?case
  proof (cases "step st")
    case (Inl p)
    then have "run_steps (step # steps) st = Inl p" by simp
    moreover have "state_of (Inl p) = state_of (step st)" using Inl by simp
    ultimately show ?thesis
      using n1 bound1 keys1 by (intro exI [of _ new1]) auto
  next
    case (Inr st1)
    then have r: "run_steps (step # steps) st = run_steps steps st1" by simp
    have s1: "failures st1 = failures st @ new1"
      "passed_rows st1 = passed_rows st - failed_positions new1" "df st1 = df st"
      using n1 Inr by simp_all
    from Cons.IH [of st1] obtain new2 where n2:
      "failures (state_of (run_steps steps st1)) = failures st1 @ new2"
      "passed_rows (state_of (run_steps steps st1)) = passed_rows st1 - failed_positions new2"
      "df (state_of (run_steps steps st1)) = df st1"
      "\<forall>f\<in>set new2. column f \<in> set cs \<and> issues f \<noteq> [] \<and> 2 \<le> row f
          \<and> (wf_df (df st1) \<longrightarrow> row f < nrows (df st1) + 2)"
      "distinct cs \<longrightarrow> distinct (map failure_key new2)"
      by blast
    have keys: "distinct (c # cs) \<longrightarrow> distinct (map failure_key (new1 @ new2))"
    proof
      assume d: "distinct (c # cs)"
      have "failure_key ` set new1 \<inter> failure_key ` set new2 = {}"
        using n1(5) n2(4) d by (fastforce simp: failure_key_def)
      with keys1 n2(5) d show "distinct (map failure_key (new1 @ new2))" by simp
    qed
    have "passed_rows st - failed_positions new1 - failed_positions new2
            = passed_rows st - failed_positions (new1 @ new2)"
      by auto
    then show ?thesis
      using r s1 n2 n1(5) bound1 keys
      by (intro exI [of _ "new1 @ new2"]) auto
  qed
qed




lemma wf_customers: "wf_df customers"
  by (simp add: wf_df_def customers_def)



lemma run_customers:
  "run_all_validations (DataValidator customers) =
     Inr \<lparr>df = customers,
          failures =
            [\<lparr>row = 3, column = ''customer_id'', issues = [ShouldBePositive (PInt (- 5))]\<rparr>,
             \<lparr>row = 4, column = ''customer_id'',
               issues = [ShouldBePositive (PInt (- 5)), DuplicateID (PInt (- 5))]\<rparr>,
             \<lparr>row = 3, column = ''first_name'', issues = [TooShort ''7'' 2, ShouldBeAlphabetic ''7'']\<rparr>,
             \<lparr>row = 3, column = ''date_of_birth'', issues = [InvalidDateValue]\<rparr>],
          passed_rows = {0}\<rparr>"
  by code_simp


lemma run_all_appends:
  "\<exists>new. failures (state_of (run_all_validations st)) = failures st @ new
          \<and> passed_rows (state_of (run_all_validations st)) = passed_rows st - failed_positions new
          \<and> df (state_of (run_all_validations st)) = df st
          \<and> (\<forall>f\<in>set new. column f \<in> set column_order \<and> issues f \<noteq> [] \<and> 2 \<le> row f
                \<and> (wf_df (df st) \<longrightarrow> row f < nrows (df st) + 2))
          \<and> distinct (map failure_key new)"
proof -
  have "distinct column_order" by (simp add: column_order_def)
  then show ?thesis
    using run_steps_appends [OF all_column_steps, of st]
    unfolding run_all_validations_def by blast
qed


text \<open>
  C1. After \<open>run_all_validations\<close> has completed on a well-formed dataset, a record
  position is in the pass set exactly when no failure refers to it (a failure of
  position \<open>p\<close> has row number \<open>p + 2\<close>), and the size of the pass set plus the number
  of distinct positions with a failure is the number of records.
\<close>

theorem pass_set_partition:
  assumes "wf_df d" and "run_all_validations (DataValidator d) = Inr st"
  shows "(\<forall>p<nrows d. p \<in> passed_rows st \<longleftrightarrow> (\<forall>f\<in>set (failures st). row f \<noteq> p + 2))
         \<and> passed_rows st \<subseteq> {0..<nrows d}
         \<and> card (passed_rows st) + card (failed_positions (failures st)) = nrows d"
proof -
  from run_all_appends [of "DataValidator d"] assms
  have fs: "passed_rows st = {0..<nrows d} - failed_positions (failures st)"
    and rows: "\<forall>f\<in>set (failures st). 2 \<le> row f \<and> row f < nrows d + 2"
    by auto
  have sub: "failed_positions (failures st) \<subseteq> {0..<nrows d}"
    using rows by (auto simp: failed_positions_def)
  have pos: "\<And>p. p \<in> failed_positions (failures st) \<longleftrightarrow> (\<exists>f\<in>set (failures st). row f = p + 2)"
    using rows by (force simp: failed_positions_def)
  have a: "\<forall>p<nrows d. p \<in> passed_rows st \<longleftrightarrow> (\<forall>f\<in>set (failures st). row f \<noteq> p + 2)"
    using fs pos by auto
  have le: "card (failed_positions (failures st)) \<le> nrows d"
    using card_mono [OF _ sub] by simp
  have "card ({0..<nrows d} - failed_positions (failures st))
          = nrows d - card (failed_positions (failures st))"
    using sub by (simp add: card_Diff_subset finite_subset)
  with le have "card ({0..<nrows d} - failed_positions (failures st))
      + card (failed_positions (failures st)) = nrows d"
    by simp
  then have c: "card (passed_rows st) + card (failed_positions (failures st)) = nrows d"
    using fs by simp
  show ?thesis using a fs c by auto
qed

theorem pass_set_partition_witness:
  "wf_df customers
   \<and> card {0::nat} + card (failed_positions
        [\<lparr>row = 3, column = ''customer_id'', issues = [ShouldBePositive (PInt (- 5))]\<rparr>,
         \<lparr>row = 4, column = ''customer_id'',
           issues = [ShouldBePositive (PInt (- 5)), DuplicateID (PInt (- 5))]\<rparr>,
         \<lparr>row = 3, column = ''first_name'', issues = [TooShort ''7'' 2, ShouldBeAlphabetic ''7'']\<rparr>,
         \<lparr>row = 3, column = ''date_of_birth'', issues = [InvalidDateValue]\<rparr>]) = nrows customers"
  using pass_set_partition [OF wf_customers run_customers] wf_customers by simp







section \<open>Counting in the quality profile\<close>

lemma is_empty_string_iff: "is_empty_string v \<longleftrightarrow> v = PStr []"
  by (cases v rule: isna.cases) (auto simp: is_empty_string_def)

lemma missing_count_Cons:
  "missing_count (Suc n) (x # xs) = missing_count n xs + (if missing_cell x then 1 else 0)"
  by (auto simp: missing_count_def missing_cell_def notna_def Let_def is_empty_string_iff)

lemma missing_count_eq:
  "length xs = n \<Longrightarrow> missing_count n xs = int (length (filter missing_cell xs))"
proof (induction xs arbitrary: n)
  case Nil
  then show ?case by (simp add: missing_count_def)
next
  case (Cons x xs)
  then obtain m where m: "n = Suc m" "length xs = m" by auto
  then show ?case using Cons.IH [of m] by (simp add: missing_count_Cons)
qed

lemma length_filter_update:
  "i < length xs \<Longrightarrow>
     int (length (filter P (xs[i := v])))
       = int (length (filter P xs)) + (if P v then 1 else 0) - (if P (xs ! i) then 1 else 0)"
proof (induction xs arbitrary: i)
  case Nil
  then show ?case by simp
next
  case (Cons x xs)
  show ?case
  proof (cases i)
    case 0
    then show ?thesis by simp
  next
    case (Suc k)
    then have "k < length xs" using Cons.prems by simp
    from Cons.IH [OF this] Suc show ?thesis by (auto split: if_splits)
  qed
qed

lemma collect_rows_length_update:
  "i < length xs \<Longrightarrow>
     int (length (collect_rows body idx (xs[i := v])))
       = int (length (collect_rows body idx xs))
         + int (length (body (idx + i) v)) - int (length (body (idx + i) (xs ! i)))"
proof (induction xs arbitrary: i idx)
  case Nil
  then show ?case by simp
next
  case (Cons x xs)
  show ?case
  proof (cases i)
    case 0
    then show ?thesis by simp
  next
    case (Suc k)
    then have "k < length xs" using Cons.prems by simp
    from Cons.IH [OF this, of "Suc idx"] Suc show ?thesis by simp
  qed
qed

lemma nunique_le: "length (distinct_values seen xs) \<le> length seen + length xs"
proof (induction xs arbitrary: seen)
  case Nil
  show ?case by simp
next
  case (Cons x xs)
  let ?seen = "if isna x \<or> py_in x seen then seen else x # seen"
  have "length (distinct_values ?seen xs) \<le> length ?seen + length xs"
    by (rule Cons.IH)
  also have "\<dots> \<le> length seen + length (x # xs)" by simp
  finally show ?case by simp
qed

lemma count_missing_high: "high (count_missing cms t) = high t"
  by (induction cms t rule: count_missing.induct) auto


lemma count_missing_sums:
  "list_all (\<lambda>cm. 0 \<le> snd cm) cms \<Longrightarrow>
     critical (count_missing cms t)
       = critical t + sum_list (map snd (filter (\<lambda>cm. fst cm = ''customer_id'') cms))
     \<and> medium (count_missing cms t)
       = medium t + sum_list (map snd (filter (\<lambda>cm. fst cm \<noteq> ''customer_id'') cms))"
  by (induction cms t rule: count_missing.induct) auto

lemma map_of_set_cell:
  "map_of (map (\<lambda>(c, xs). if c = col then (c, xs[i := v]) else (c, xs)) cols) c
     = (if c = col then map_option (\<lambda>xs. xs[i := v]) (map_of cols c) else map_of cols c)"
  by (induction cols) auto

lemma get_column_set_cell:
  "get_column (set_cell d col i v) c
     = (if c = col then (case get_column d c of Inl e \<Rightarrow> Inl e | Inr xs \<Rightarrow> Inr (xs[i := v]))
        else get_column d c)"
  by (auto simp: get_column_def set_cell_def map_of_set_cell split: option.splits)

lemma nrows_set_cell [simp]: "nrows (set_cell d col i v) = nrows d"
  by (simp add: set_cell_def)

lemma map_fst_set_cell:
  "map fst (map (\<lambda>(c, xs). if c = col then (c, xs[i := v]) else (c, xs)) cols) = map fst cols"
  by (induction cols) auto

lemma wf_df_set_cell: "wf_df d \<Longrightarrow> wf_df (set_cell d col i v)"
  using map_fst_set_cell [of col i v "columns d"]
  by (auto simp: wf_df_def set_cell_def list_all_iff simp del: map_map)

lemma sum_missing_set_cell:
  assumes "distinct (map fst cols)" and "map_of cols col = Some xs"
  shows "sum_list (map snd (filter (\<lambda>cm. P (fst cm))
            (map (\<lambda>(c, ys). (c, g ys))
               (map (\<lambda>(c, ys). if c = col then (c, ys[i := v]) else (c, ys)) cols))))
         = sum_list (map snd (filter (\<lambda>cm. P (fst cm)) (map (\<lambda>(c, ys). (c, g ys)) cols)))
           + (if P col then g (xs[i := v]) - g xs else (0::int))"
  using assms
proof (induction cols)
  case Nil
  then show ?case by simp
next
  case (Cons a cols)
  obtain c ys where a: "a = (c, ys)" by (cases a)
  show ?case
  proof (cases "c = col")
    case True
    then have xs: "ys = xs" using Cons.prems a by simp
    have notin: "col \<notin> fst ` set cols" using Cons.prems(1) a True by auto
    then have same: "map (\<lambda>(c, ys). if c = col then (c, ys[i := v]) else (c, ys)) cols = cols"
      by (induction cols) auto
    show ?thesis using a True xs same by simp
  next
    case False
    then have "map_of cols col = Some xs" using Cons.prems a by simp
    moreover have "distinct (map fst cols)" using Cons.prems by simp
    ultimately show ?thesis using Cons.IH a False by simp
  qed
qed

lemma missing_total_set_cell:
  assumes "wf_df d" and "get_column d col = Inr xs" and "i < length xs"
  shows "missing_total P (set_cell d col i v)
           = missing_total P d
             + (if P col then (if missing_cell v then 1 else 0) - (if missing_cell (xs ! i) then 1 else 0)
                else 0)"
proof -
  have m: "map_of (columns d) col = Some xs"
    using assms(2) by (auto simp: get_column_def split: option.splits)
  have len: "length xs = nrows d" using wf_df_length [OF assms(1,2)] .
  have d: "distinct (map fst (columns d))" using assms(1) by (simp add: wf_df_def)
  have "missing_count (nrows d) (xs[i := v]) - missing_count (nrows d) xs
          = (if missing_cell v then 1 else 0) - (if missing_cell (xs ! i) then 1 else 0)"
    using len assms(3) by (simp add: missing_count_eq length_filter_update)
  then show ?thesis
    using sum_missing_set_cell [OF d m, of P "missing_count (nrows d)" i v]
    by (simp add: missing_total_def analyze_completeness_def set_cell_def)
qed

lemma completeness_nonneg:
  "wf_df d \<Longrightarrow> list_all (\<lambda>cm. 0 \<le> snd cm) (analyze_completeness d)"
  by (auto simp: analyze_completeness_def wf_df_def list_all_iff missing_count_eq)

lemma count_missing_eq:
  assumes "list_all (\<lambda>cm. 0 \<le> snd cm) cms"
  shows "count_missing cms t =
           \<lparr>critical = critical t + sum_list (map snd (filter (\<lambda>cm. fst cm = ''customer_id'') cms)),
            high = high t,
            medium = medium t + sum_list (map snd (filter (\<lambda>cm. fst cm \<noteq> ''customer_id'') cms))\<rparr>"
  using count_missing_sums [OF assms, of t] count_missing_high [of cms t]
  by (intro tally.equality) simp_all


lemma quality_tally_columns:
  assumes "quality_tally y d = Inr t"
  shows "\<exists>phones dobs created ids incomes statuses.
           get_column d ''phone'' = Inr phones \<and> get_column d ''date_of_birth'' = Inr dobs
           \<and> get_column d ''created_date'' = Inr created \<and> get_column d ''customer_id'' = Inr ids
           \<and> get_column d ''income'' = Inr incomes \<and> get_column d ''account_status'' = Inr statuses"
  using assms
  by (auto simp: quality_tally_def analyze_format_issues_def analyze_uniqueness_def
      analyze_invalid_values_def analyze_categorical_validity_def Let_def split: sum.splits)

lemma quality_tally_value:
  assumes "wf_df d"
    and "get_column d ''phone'' = Inr phones" and "get_column d ''date_of_birth'' = Inr dobs"
    and "get_column d ''created_date'' = Inr created" and "get_column d ''customer_id'' = Inr ids"
    and "get_column d ''income'' = Inr incomes" and "get_column d ''account_status'' = Inr statuses"
  shows "quality_tally y d =
     Inr \<lparr>critical = int (length ids) - int (nunique ids) + missing_total (\<lambda>c. c = ''customer_id'') d,
          high = int (length (collect_rows date_of_birth_finding 0 dobs))
                 + int (length (collect_rows created_date_finding 0 created))
                 + (int (length (collect_rows invalid_dob_finding 0 dobs))
                    + int (length (collect_rows invalid_created_finding 0 created))
                    + int (length (collect_rows negative_income_finding 0 incomes))
                    + int (length (collect_rows (age_finding y) 0 dobs))),
          medium = int (length (collect_rows categorical_finding 0 statuses))
                   + missing_total (\<lambda>c. c \<noteq> ''customer_id'') d\<rparr>"
proof -
  have le: "int (nunique ids) \<le> int (length ids)"
    using nunique_le [of "[]" ids] by (simp add: nunique_def)
  show ?thesis
    using assms(2-7) le
    by (simp add: quality_tally_def analyze_format_issues_def analyze_uniqueness_def
        analyze_invalid_values_def analyze_categorical_validity_def severity_def Let_def
        count_missing_eq [OF completeness_nonneg [OF assms(1)]] missing_total_def)
qed

section \<open>The claims about the severity tally\<close>

lemma tally_customers: "quality_tally 2026 customers = Inr \<lparr>critical = 1, high = 2, medium = 0\<rparr>"
  by code_simp




lemma quality_tally_set_status:
  assumes "wf_df d" and "quality_tally y d = Inr t"
    and "get_column d ''account_status'' = Inr xs" and "i < length xs"
  shows "quality_tally y (set_cell d ''account_status'' i v) =
           Inr \<lparr>critical = critical t,
                high = high t,
                medium = medium t + int (length (categorical_finding i v))
                           - int (length (categorical_finding i (xs ! i)))
                           + (if missing_cell v then 1 else 0)
                           - (if missing_cell (xs ! i) then 1 else 0)\<rparr>"
proof -
  let ?d = "set_cell d ''account_status'' i v"
  from quality_tally_columns [OF assms(2)] assms(3)
  obtain phones dobs created ids incomes where cols:
    "get_column d ''phone'' = Inr phones" "get_column d ''date_of_birth'' = Inr dobs"
    "get_column d ''created_date'' = Inr created" "get_column d ''customer_id'' = Inr ids"
    "get_column d ''income'' = Inr incomes" "get_column d ''account_status'' = Inr xs"
    by auto
  have cols': "get_column ?d ''phone'' = Inr phones" "get_column ?d ''date_of_birth'' = Inr dobs"
    "get_column ?d ''created_date'' = Inr created" "get_column ?d ''customer_id'' = Inr ids"
    "get_column ?d ''income'' = Inr incomes" "get_column ?d ''account_status'' = Inr (xs[i := v])"
    using cols by (simp_all add: get_column_set_cell)
  have m1: "missing_total (\<lambda>c. c = ''customer_id'') ?d = missing_total (\<lambda>c. c = ''customer_id'') d"
    using missing_total_set_cell [OF assms(1,3,4), of "\<lambda>c. c = ''customer_id''" v] by simp
  have m2: "missing_total (\<lambda>c. c \<noteq> ''customer_id'') ?d
      = missing_total (\<lambda>c. c \<noteq> ''customer_id'') d
        + ((if missing_cell v then 1 else 0) - (if missing_cell (xs ! i) then 1 else 0))"
    using missing_total_set_cell [OF assms(1,3,4), of "\<lambda>c. c \<noteq> ''customer_id''" v] by simp
  have n: "int (length (collect_rows categorical_finding 0 (xs[i := v])))
      = int (length (collect_rows categorical_finding 0 xs))
        + int (length (categorical_finding i v)) - int (length (categorical_finding i (xs ! i)))"
    using collect_rows_length_update [OF assms(4), of categorical_finding 0 v] by simp
  have t: "Inr t = quality_tally y d" using assms(2) by simp
  show ?thesis
    unfolding quality_tally_value [OF wf_df_set_cell [OF assms(1)] cols']
    using t unfolding quality_tally_value [OF assms(1) cols]
    by (simp add: m1 m2 n)
qed

lemma validate_column_nth:
  assumes "get_column (df st) col = Inr xs" and "\<And>v. \<exists>iss. check v = Inr iss"
    and "i < length xs" and "check (xs ! i) = Inr iss"
  shows "\<exists>st'. validate_column check col st = Inr st'
           \<and> failures st' = failures st @ new_failures check col 0 xs
           \<and> (iss \<noteq> [] \<longrightarrow> \<lparr>row = i + 2, column = col, issues = iss\<rparr>
                  \<in> set (new_failures check col 0 xs))
           \<and> (iss = [] \<longrightarrow> (\<forall>f\<in>set (new_failures check col 0 xs). row f \<noteq> i + 2))"
proof -
  have total: "\<forall>v\<in>set xs. \<exists>iss. check v = Inr iss" using assms(2) by simp
  obtain st' where st': "validate_column check col st = Inr st'"
    using validate_column_completes [OF assms(1) total] by blast
  have fs: "failures st' = failures st @ new_failures check col 0 xs"
    using validate_column_state [OF assms(1), of check] st' by simp
  have a: "iss \<noteq> [] \<longrightarrow> \<lparr>row = i + 2, column = col, issues = iss\<rparr>
                  \<in> set (new_failures check col 0 xs)"
    using new_failures_mem [OF total, of "\<lparr>row = i + 2, column = col, issues = iss\<rparr>" col 0]
      assms(3,4) by auto
  have b: "iss = [] \<longrightarrow> (\<forall>f\<in>set (new_failures check col 0 xs). row f \<noteq> i + 2)"
  proof (intro impI ballI)
    fix f assume e: "iss = []" and f: "f \<in> set (new_failures check col 0 xs)"
    then obtain k iss' where k: "k < length xs" "check (xs ! k) = Inr iss'" "iss' \<noteq> []"
      "f = \<lparr>row = 0 + k + 2, column = col, issues = iss'\<rparr>"
      using new_failures_mem [OF total, of f col 0] by blast
    show "row f \<noteq> i + 2"
    proof
      assume "row f = i + 2"
      with k(4) have "k = i" by simp
      with k(2,3) assms(4) e show False by simp
    qed
  qed
  from st' fs a b show ?thesis by blast
qed


lemma get_column_customers_status:
  "get_column customers ''account_status'' = Inr [PStr ''active'', PStr ''inactive'', PStr ''suspended'']"
  by (simp add: customers_def get_column_def)





lemma missing_cell_simps:
  "missing_cell NaN" "\<not> missing_cell (PInt k)" "missing_cell (PStr s) \<longleftrightarrow> s = []"
  by (simp_all add: missing_cell_def is_empty_string_iff)



lemma strip_Nil [simp]: "strip [] = []"
  by (simp add: strip_def)

lemma lower_Nil_iff [simp]: "lower s = [] \<longleftrightarrow> s = []"
  by (simp add: lower_def)

lemma lower_Nil [simp]: "lower [] = []"
  by (simp add: lower_def)

lemma variant_Active: "lower (strip ''Active'') \<in> set valid_statuses"
  "strip ''Active'' \<notin> set valid_statuses"
  by code_simp+

lemma categorical_active: "categorical_finding 0 (PStr ''active'') = []"
  by code_simp

text \<open>
  C10. Let \<open>s\<close> be a text that is one of active, inactive and suspended once trimmed
  and lower-cased, but is not one of them when only trimmed (a case variant such as
  Active). The validator's account-status rule reports nothing for \<open>s\<close>, while the
  profiler's categorical check reports the invalid-value finding for it. In a
  well-formed dataset whose status in record \<open>i\<close> is present and accepted by the
  profiler, writing \<open>s\<close> there raises the medium counter by 1 and changes no other
  counter, and \<open>validate_account_status\<close> records no failure for that record.
\<close>

theorem status_case_disagreement:
  assumes "lower (strip s) \<in> set valid_statuses" and "strip s \<notin> set valid_statuses"
    and "wf_df d" and "quality_tally y d = Inr t"
    and "get_column d ''account_status'' = Inr xs" and "i < length xs"
    and "\<not> missing_cell (xs ! i)" and "categorical_finding i (xs ! i) = []"
  shows "account_status_issues (PStr s) = []
         \<and> categorical_finding i (PStr s) = [InvalidCategory (i + 2) (PStr s)]
         \<and> quality_tally y (set_cell d ''account_status'' i (PStr s))
             = Inr (t\<lparr>medium := medium t + 1\<rparr>)
         \<and> (\<exists>st. validate_account_status (DataValidator (set_cell d ''account_status'' i (PStr s)))
                    = Inr st
               \<and> (\<forall>f\<in>set (failures st). row f \<noteq> i + 2))"
proof -
  have "lower (strip s) \<noteq> []" using assms(1) by (auto simp: valid_statuses_def)
  then have ne: "strip s \<noteq> []" by simp
  then have s: "s \<noteq> []" by auto
  have a: "account_status_issues (PStr s) = []"
    using assms(1) ne by (simp add: account_status_issues_def Let_def)
  have b: "categorical_finding i (PStr s) = [InvalidCategory (i + 2) (PStr s)]"
    using assms(2) ne by (simp add: categorical_finding_def notna_def Let_def)
  have c: "quality_tally y (set_cell d ''account_status'' i (PStr s))
             = Inr (t\<lparr>medium := medium t + 1\<rparr>)"
    using quality_tally_set_status [OF assms(3-6), of "PStr s"] assms(7,8) b s
    by (simp add: missing_cell_simps)
  have col: "get_column (df (DataValidator (set_cell d ''account_status'' i (PStr s))))
      ''account_status'' = Inr (xs[i := PStr s])"
    using assms(5) by (simp add: get_column_set_cell)
  have len: "i < length (xs[i := PStr s])" using assms(6) by simp
  have "\<exists>st. validate_account_status (DataValidator (set_cell d ''account_status'' i (PStr s)))
                    = Inr st
               \<and> (\<forall>f\<in>set (failures st). row f \<noteq> i + 2)"
    using validate_column_nth [where check = "\<lambda>v. Inr (account_status_issues v)"
        and iss = "[]", OF col _ len] assms(6) a
    by (auto simp: validate_account_status_def)
  with a b c show ?thesis by blast
qed

theorem status_case_disagreement_witness:
  "account_status_issues (PStr ''Active'') = []
   \<and> categorical_finding 0 (PStr ''Active'') = [InvalidCategory (0 + 2) (PStr ''Active'')]
   \<and> quality_tally 2026 (set_cell customers ''account_status'' 0 (PStr ''Active''))
       = Inr \<lparr>critical = 1, high = 2, medium = 1\<rparr>"
proof -
  have h: "(0::nat) < length [PStr ''active'', PStr ''inactive'', PStr ''suspended'']"
    "\<not> missing_cell ([PStr ''active'', PStr ''inactive'', PStr ''suspended''] ! 0)"
    "categorical_finding 0 ([PStr ''active'', PStr ''inactive'', PStr ''suspended''] ! 0) = []"
    by (simp_all add: missing_cell_simps categorical_active)
  from status_case_disagreement [OF variant_Active wf_customers tally_customers
      get_column_customers_status h]
  show ?thesis by simp
qed

end
